theory Spec2Isabelle
  imports Main "HOL-Library.Word"
begin

unbundle bit_operations_syntax

section \<open>Data model shared by the two sketches\<close>

text \<open>
  The repository holds two sketches for the ATmega328P (avr-gcc): \<^verbatim>\<open>vgarduino.ino\<close>
  (history entry v1.1) and an earlier variant (history entry v1.0, the file
  \<^verbatim>\<open>unnamed/part_000\<close>).  Names of the earlier variant that clash with the
  later one carry the suffix \<^verbatim>\<open>_part0\<close>.

  On this target \<^verbatim>\<open>byte\<close> is an unsigned 8-bit integer and \<^verbatim>\<open>int\<close> is 16 bits wide.
  The two line counters are \<^verbatim>\<open>int\<close>s; they are modelled as 16-bit words, read as signed
  where their order matters.  They stay between 0 and 480 on every state reached from the
  initial one, far from the ends of the range.
\<close>

type_synonym byte = "8 word"
type_synonym int16 = "16 word"

text \<open>\<^verbatim>\<open>_BV(bit)\<close> of avr-libc is \<^verbatim>\<open>(1 << (bit))\<close>.\<close>

definition BV :: "nat \<Rightarrow> byte" where
  "BV b = push_bit b 1"

text \<open>
  What an interrupt handler does to the outside world, in program order: a call of
  \<^verbatim>\<open>waitTimer1\<close>, a call of \<^verbatim>\<open>delayMicroseconds\<close>, a write to \<^verbatim>\<open>PORTD\<close> (the RGB
  port) or to \<^verbatim>\<open>PORTB\<close> (the synch port).  A call of \<^verbatim>\<open>waitTimer1\<close> is recorded with
  the value of the argument written at the call, an \<^verbatim>\<open>int\<close> that is never negative; the
  \<^verbatim>\<open>byte\<close> parameter receives this value converted to 8 bits (\<open>wait_args\<close> below).
\<close>

datatype event =
    WaitTimer1 nat
  | DelayMicroseconds nat
  | WritePORTD byte
  | WritePORTB byte

section \<open>vgarduino.ino\<close>

subsection \<open>Constants\<close>

definition RED_PIN :: nat where "RED_PIN = 7"
definition GREEN_PIN :: nat where "GREEN_PIN = 6"
definition BLUE_PIN :: nat where "BLUE_PIN = 5"

definition HSYNCH_PIN :: nat where "HSYNCH_PIN = 1"
definition VSYNCH_PIN :: nat where "VSYNCH_PIN = 0"

definition BLACK_MASK :: byte where "BLACK_MASK = 0"
definition RED_MASK :: byte where "RED_MASK = BV RED_PIN"
definition GREEN_MASK :: byte where "GREEN_MASK = BV GREEN_PIN"
definition BLUE_MASK :: byte where "BLUE_MASK = BV BLUE_PIN"
definition CYAN_MASK :: byte where "CYAN_MASK = (BV GREEN_PIN OR BV BLUE_PIN)"
definition YELLOW_MASK :: byte where "YELLOW_MASK = (BV RED_PIN OR BV GREEN_PIN)"
definition MAGENTA_MASK :: byte where "MAGENTA_MASK = (BV RED_PIN OR BV BLUE_PIN)"
definition WHITE_MASK :: byte where
  "WHITE_MASK = (BV RED_PIN OR BV GREEN_PIN OR BV BLUE_PIN)"

definition V_FRONT_PORCH_LINES :: int16 where "V_FRONT_PORCH_LINES = 11"
definition V_SYNCH_PULSE_LINES :: int16 where "V_SYNCH_PULSE_LINES = 2"
definition V_BACK_PORCH_LINES :: int16 where "V_BACK_PORCH_LINES = 31"
definition V_ACTIVE_VIDEO_LINES :: int16 where "V_ACTIVE_VIDEO_LINES = 480"

definition SYNCH_PULSE :: byte where "SYNCH_PULSE = 0"
definition BACK_PORCH :: byte where "BACK_PORCH = 1"
definition ACTIVE_VIDEO :: byte where "ACTIVE_VIDEO = 2"
definition FRONT_PORCH :: byte where "FRONT_PORCH = 3"

definition nb_line_modes :: "int16 list" where
  "nb_line_modes =
     [V_SYNCH_PULSE_LINES, V_BACK_PORCH_LINES, V_ACTIVE_VIDEO_LINES, V_FRONT_PORCH_LINES]"

text \<open>
  A read \<^verbatim>\<open>nb_line_modes[i]\<close>.  Reading past the end of the array is undefined
  behaviour in C; the model makes it the value \<open>None\<close>.
\<close>

definition nb_line_modes_at :: "byte \<Rightarrow> int16 option" where
  "nb_line_modes_at i =
     (if unat i < length nb_line_modes then Some (nb_line_modes ! unat i) else None)"

text \<open>The tick constants are preprocessor integers (type \<^verbatim>\<open>int\<close>, never negative).\<close>

definition H_SYNCH_PULSE_TICKS :: nat where "H_SYNCH_PULSE_TICKS = 61"
definition H_BACK_PORCH_TICKS :: nat where "H_BACK_PORCH_TICKS = 30"
definition H_ACTIVE_VIDEO_TICKS :: nat where "H_ACTIVE_VIDEO_TICKS = 406"
definition H_FRONT_PORCH_TICKS :: nat where "H_FRONT_PORCH_TICKS = 10"
definition H_FULL_LINE_NB_TICKS :: nat where
  "H_FULL_LINE_NB_TICKS =
     H_SYNCH_PULSE_TICKS + H_BACK_PORCH_TICKS + H_ACTIVE_VIDEO_TICKS + H_FRONT_PORCH_TICKS"

subsection \<open>State\<close>

text \<open>
  The two globals \<^verbatim>\<open>phase\<close> and \<^verbatim>\<open>lines_left\<close>, and the two output registers the
  handler writes.
\<close>

record state =
  phase :: byte
  lines_left :: int16
  PORTD :: byte
  PORTB :: byte

subsection \<open>incrementLineNumber\<close>

text \<open>
  \<^verbatim>\<open>
  lines_left--;
  if (lines_left == 0) {
    phase++;
    phase &= 0x03;
    lines_left = nb_line_modes[phase];
  }
  \<close>
\<close>

definition incrementLineNumber :: "state \<Rightarrow> state option" where
  "incrementLineNumber s =
     (let s1 = s\<lparr>lines_left := lines_left s - 1\<rparr> in
      if lines_left s1 = 0 then
        (let s2 = s1\<lparr>phase := phase s1 + 1\<rparr>;
             s3 = s2\<lparr>phase := phase s2 AND 0x03\<rparr>
         in case nb_line_modes_at (phase s3) of
              None \<Rightarrow> None
            | Some n \<Rightarrow> Some (s3\<lparr>lines_left := n\<rparr>))
      else Some s1)"

text \<open>\<open>advance n\<close>: \<open>n\<close> calls of \<^verbatim>\<open>incrementLineNumber\<close> in a row.\<close>

fun advance :: "nat \<Rightarrow> state \<Rightarrow> state option" where
  "advance 0 s = Some s"
| "advance (Suc n) s =
     (case incrementLineNumber s of None \<Rightarrow> None | Some s' \<Rightarrow> advance n s')"

subsection \<open>waitTimer1 (inline assembly)\<close>

text \<open>
  The routine is straight-line AVR code around one loop.  Its model follows the register
  \<^verbatim>\<open>%[tick]\<close> through the instructions and adds up the clock cycles each instruction
  takes on the ATmega328P: \<^verbatim>\<open>sub\<close>, \<^verbatim>\<open>subi\<close>, \<^verbatim>\<open>cpi\<close>, \<^verbatim>\<open>nop\<close> one cycle;
  \<^verbatim>\<open>rjmp\<close> two; \<^verbatim>\<open>brcc\<close>, \<^verbatim>\<open>breq\<close> one when the branch is not taken and two when
  it is.  These are the counts written beside the instructions in the source.

  \<^verbatim>\<open>
  1: subi %[tick], 4
  2: cpi %[tick], 4
  brcc 1b
  \<close>
  entered at label 2.  \<^verbatim>\<open>cpi\<close> sets the carry flag when the register is below 4
  (unsigned), so \<^verbatim>\<open>brcc\<close> branches back while it is at least 4.
\<close>

function waitTimer1_loop :: "byte \<Rightarrow> nat \<Rightarrow> byte \<times> nat" where
  "waitTimer1_loop tick c =
     (if 4 \<le> tick
      then waitTimer1_loop (tick - 4) (c + 1 + 2 + 1) \<comment> \<open>cpi, brcc taken, subi\<close>
      else (tick, c + 1 + 1))                          \<comment> \<open>cpi, brcc not taken\<close>"
  by pat_completeness auto
termination
  by (relation "measure (\<lambda>(tick, c). unat tick)") (auto simp: unat_sub word_le_nat_alt)

declare waitTimer1_loop.simps [simp del]

text \<open>
  \<^verbatim>\<open>
  cpi %[tick], 0
  breq 3f
  cpi %[tick], 1
  breq 1f
  cpi %[tick], 2
  breq 2f
  0: nop
  1: nop
  2: nop
  3:
  \<close>
  The forward references \<^verbatim>\<open>1f\<close> and \<^verbatim>\<open>2f\<close> name the labels in front of the second and
  the third \<^verbatim>\<open>nop\<close>; \<^verbatim>\<open>3f\<close> names the end of the routine.
\<close>

definition waitTimer1_tail :: "byte \<Rightarrow> nat \<Rightarrow> nat" where
  "waitTimer1_tail tick c =
     (if tick = 0 then c + 1 + 2                          \<comment> \<open>cpi, breq 3f taken\<close>
      else if tick = 1 then c + 1 + 1 + 1 + 2 + 1 + 1     \<comment> \<open>breq 1f taken, two nops\<close>
      else if tick = 2 then c + 1 + 1 + 1 + 1 + 1 + 2 + 1 \<comment> \<open>breq 2f taken, one nop\<close>
      else c + 1 + 1 + 1 + 1 + 1 + 1 + 1 + 1 + 1)         \<comment> \<open>no branch taken, three nops\<close>"

text \<open>
  \<^verbatim>\<open>
  sub %[tick], %[tmp]
  sub %[tick], 13
  rjmp 2f
  \<close>
  with \<^verbatim>\<open>tmp\<close> the value read from \<^verbatim>\<open>TCNT1L\<close>.  The instruction \<^verbatim>\<open>sub\<close> takes two
  registers (the form with a constant is \<^verbatim>\<open>subi\<close>, which the loop uses), so the operand
  13 of the second instruction names the register r13.  The sketch never sets this
  register; what it holds when the routine runs is the parameter \<open>r13\<close>.
  \<open>waitTimer1 tick tmp r13\<close> is the number of cycles from the first instruction to
  label 3.
\<close>

definition waitTimer1 :: "byte \<Rightarrow> byte \<Rightarrow> byte \<Rightarrow> nat" where
  "waitTimer1 tick tmp r13 =
     (let t1 = tick - tmp;                          \<comment> \<open>sub, 1 cycle\<close>
          t2 = t1 - r13;                            \<comment> \<open>sub, 1 cycle\<close>
          (t3, c) = waitTimer1_loop t2 (1 + 1 + 2)  \<comment> \<open>rjmp 2f, 2 cycles\<close>
      in waitTimer1_tail t3 c)"

subsection \<open>The interrupt handler\<close>

text \<open>
  The handler's statements act on the state and append to the list of events.
\<close>

type_synonym action = "state \<times> event list \<Rightarrow> state \<times> event list"

definition call_waitTimer1 :: "nat \<Rightarrow> action" where
  "call_waitTimer1 t = (\<lambda>(s, es). (s, es @ [WaitTimer1 t]))"

definition delayMicroseconds :: "nat \<Rightarrow> action" where
  "delayMicroseconds us = (\<lambda>(s, es). (s, es @ [DelayMicroseconds us]))"

definition set_PORTD :: "byte \<Rightarrow> action" where
  "set_PORTD v = (\<lambda>(s, es). (s\<lparr>PORTD := v\<rparr>, es @ [WritePORTD v]))"

definition xor_PORTB :: "byte \<Rightarrow> action" where
  \<comment> \<open>\<^verbatim>\<open>PORT(SYNCH_PORT) ^= v\<close>\<close>
  "xor_PORTB v = (\<lambda>(s, es). (s\<lparr>PORTB := PORTB s XOR v\<rparr>, es @ [WritePORTB (PORTB s XOR v)]))"

definition run :: "action list \<Rightarrow> state \<Rightarrow> state \<times> event list" where
  "run acts s = fold (\<lambda>a x. a x) acts (s, [])"

definition ISR :: "state \<Rightarrow> (state \<times> event list) option" where
  "ISR s =
     (let (s1, es) =
        (if phase s = ACTIVE_VIDEO then
           run [call_waitTimer1 (H_SYNCH_PULSE_TICKS + H_BACK_PORCH_TICKS),
                set_PORTD RED_MASK,
                delayMicroseconds 3,
                set_PORTD GREEN_MASK,
                delayMicroseconds 3,
                set_PORTD BLUE_MASK,
                delayMicroseconds 3,
                set_PORTD CYAN_MASK,
                delayMicroseconds 3,
                set_PORTD YELLOW_MASK,
                delayMicroseconds 3,
                set_PORTD MAGENTA_MASK,
                delayMicroseconds 3,
                set_PORTD BLACK_MASK,
                delayMicroseconds 3,
                set_PORTD WHITE_MASK,
                delayMicroseconds 3,
                set_PORTD 0] s
         else if phase s = FRONT_PORCH \<or> phase s = SYNCH_PULSE then
           (if lines_left s = 1 then
              run [call_waitTimer1 (H_SYNCH_PULSE_TICKS + H_BACK_PORCH_TICKS),
                   xor_PORTB (BV VSYNCH_PIN)] s
            else (s, []))
         else (s, []))
      in case incrementLineNumber s1 of
           None \<Rightarrow> None
         | Some s2 \<Rightarrow> Some (s2, es))"

subsection \<open>Initialisation\<close>

text \<open>
  \<^verbatim>\<open>init_io\<close> and \<^verbatim>\<open>init_video_line_timer\<close>, as far as they touch the state above (the
  direction registers and the registers of the timers are not part of it).
\<close>

definition init_io :: "state \<Rightarrow> state" where
  "init_io s = s\<lparr>PORTD := 0, PORTB := (BV VSYNCH_PIN OR BV HSYNCH_PIN)\<rparr>"

definition init_video_line_timer :: "state \<Rightarrow> state option" where
  "init_video_line_timer s =
     (let s1 = s\<lparr>phase := FRONT_PORCH\<rparr> in
      case nb_line_modes_at (phase s1) of
        None \<Rightarrow> None
      | Some n \<Rightarrow> Some (s1\<lparr>lines_left := n\<rparr>))"

text \<open>\<^verbatim>\<open>setup\<close> of the sketch: \<^verbatim>\<open>init_io(); cli(); init_video_line_timer(); sei();\<close>\<close>

definition setup_sketch :: "state \<Rightarrow> state option" where
  "setup_sketch s = init_video_line_timer (init_io s)"

text \<open>The state \<^verbatim>\<open>setup\<close> leaves behind, whatever the registers held before.\<close>

definition initial :: state where
  "initial =
     \<lparr>phase = FRONT_PORCH, lines_left = V_FRONT_PORCH_LINES,
      PORTD = 0, PORTB = (BV VSYNCH_PIN OR BV HSYNCH_PIN)\<rparr>"

text \<open>\<open>simulate n s\<close>: \<open>n\<close> interrupts in a row; for each, the phase it found and its events.\<close>

fun simulate :: "nat \<Rightarrow> state \<Rightarrow> (byte \<times> event list) list option" where
  "simulate 0 s = Some []"
| "simulate (Suc n) s =
     (case ISR s of
        None \<Rightarrow> None
      | Some (s', es) \<Rightarrow> map_option ((#) (phase s, es)) (simulate n s'))"

section \<open>The earlier variant (part_000)\<close>

subsection \<open>Constants\<close>

definition VSYNCH_PIN_part0 :: nat where "VSYNCH_PIN_part0 = 1"
definition HSYNCH_PIN_part0 :: nat where "HSYNCH_PIN_part0 = 0"

definition BLACK :: byte where "BLACK = 0"
definition RED :: byte where "RED = BV RED_PIN"
definition GREEN :: byte where "GREEN = BV GREEN_PIN"
definition BLUE :: byte where "BLUE = BV BLUE_PIN"
definition CYAN :: byte where "CYAN = (BV GREEN_PIN OR BV BLUE_PIN)"
definition YELLOW :: byte where "YELLOW = (BV RED_PIN OR BV GREEN_PIN)"
definition MAGENTA :: byte where "MAGENTA = (BV RED_PIN OR BV BLUE_PIN)"
definition WHITE :: byte where "WHITE = (BV RED_PIN OR BV GREEN_PIN OR BV BLUE_PIN)"

definition H_FRONT_PORCH_LINES :: int16 where "H_FRONT_PORCH_LINES = 11"
definition H_SYNCH_PULSE_LINES :: int16 where "H_SYNCH_PULSE_LINES = 2"
definition H_BACK_PORCH_LINES :: int16 where "H_BACK_PORCH_LINES = 31"
definition H_ACTIVE_VIDEO_LINES :: int16 where "H_ACTIVE_VIDEO_LINES = 480"

definition nb_line_modes_part0 :: "int16 list" where
  "nb_line_modes_part0 =
     [H_SYNCH_PULSE_LINES, H_BACK_PORCH_LINES, H_ACTIVE_VIDEO_LINES, H_FRONT_PORCH_LINES]"

definition nb_line_modes_at_part0 :: "byte \<Rightarrow> int16 option" where
  "nb_line_modes_at_part0 i =
     (if unat i < length nb_line_modes_part0 then Some (nb_line_modes_part0 ! unat i)
      else None)"

definition V_SYNCH_PULSE_TICKS :: nat where "V_SYNCH_PULSE_TICKS = 61"
definition V_BACK_PORCH_TICKS :: nat where "V_BACK_PORCH_TICKS = 30"
definition V_ACTIVE_VIDEO_TICKS :: nat where "V_ACTIVE_VIDEO_TICKS = 406"
definition V_FRONT_PORCH_TICKS :: nat where "V_FRONT_PORCH_TICKS = 10"
definition V_FULL_LINE_NB_TICKS :: nat where
  "V_FULL_LINE_NB_TICKS =
     V_SYNCH_PULSE_TICKS + V_BACK_PORCH_TICKS + V_ACTIVE_VIDEO_TICKS + V_FRONT_PORCH_TICKS"

subsection \<open>State\<close>

record state_part0 =
  phase_part0 :: byte
  line_number :: int16
  PORTD_part0 :: byte
  PORTB_part0 :: byte

subsection \<open>incrementLineNumber\<close>

text \<open>
  \<^verbatim>\<open>
  line_number++;
  if (line_number == nb_line_modes[phase]) {
    line_number = 0;
    phase++;
    phase &= 0x03;
  }
  \<close>
\<close>

definition incrementLineNumber_part0 :: "state_part0 \<Rightarrow> state_part0 option" where
  "incrementLineNumber_part0 s =
     (let s1 = s\<lparr>line_number := line_number s + 1\<rparr> in
      case nb_line_modes_at_part0 (phase_part0 s1) of
        None \<Rightarrow> None
      | Some n \<Rightarrow>
          if line_number s1 = n then
            (let s2 = s1\<lparr>line_number := 0\<rparr>;
                 s3 = s2\<lparr>phase_part0 := phase_part0 s2 + 1\<rparr>
             in Some (s3\<lparr>phase_part0 := phase_part0 s3 AND 0x03\<rparr>))
          else Some s1)"

fun advance_part0 :: "nat \<Rightarrow> state_part0 \<Rightarrow> state_part0 option" where
  "advance_part0 0 s = Some s"
| "advance_part0 (Suc n) s =
     (case incrementLineNumber_part0 s of None \<Rightarrow> None | Some s' \<Rightarrow> advance_part0 n s')"

subsection \<open>waitTimer1 (poll loop)\<close>

text \<open>
  \<^verbatim>\<open>do { } while(TCNT1L < tick);\<close>
  Each evaluation of the condition reads the hardware register \<^verbatim>\<open>TCNT1L\<close> once.
  The model is given the values the successive reads return and yields the values not
  yet read when the loop is left; \<open>None\<close> when the loop is still running after the last
  value given.
\<close>

fun waitTimer1_part0 :: "byte \<Rightarrow> byte list \<Rightarrow> byte list option" where
  "waitTimer1_part0 tick [] = None"
| "waitTimer1_part0 tick (r # rs) = (if r < tick then waitTimer1_part0 tick rs else Some rs)"

subsection \<open>The interrupt handler\<close>

type_synonym action_part0 = "state_part0 \<times> event list \<Rightarrow> state_part0 \<times> event list"

definition call_waitTimer1_part0 :: "nat \<Rightarrow> action_part0" where
  "call_waitTimer1_part0 t = (\<lambda>(s, es). (s, es @ [WaitTimer1 t]))"

definition set_PORTD_part0 :: "byte \<Rightarrow> action_part0" where
  "set_PORTD_part0 v = (\<lambda>(s, es). (s\<lparr>PORTD_part0 := v\<rparr>, es @ [WritePORTD v]))"

definition bitClear_PORTB :: "nat \<Rightarrow> action_part0" where
  \<comment> \<open>Arduino's \<^verbatim>\<open>bitClear(value, bit)\<close> is \<^verbatim>\<open>((value) &= ~(1UL << (bit)))\<close>\<close>
  "bitClear_PORTB b =
     (\<lambda>(s, es). let v = PORTB_part0 s AND NOT (BV b)
                in (s\<lparr>PORTB_part0 := v\<rparr>, es @ [WritePORTB v]))"

definition bitSet_PORTB :: "nat \<Rightarrow> action_part0" where
  \<comment> \<open>Arduino's \<^verbatim>\<open>bitSet(value, bit)\<close> is \<^verbatim>\<open>((value) |= (1UL << (bit)))\<close>\<close>
  "bitSet_PORTB b =
     (\<lambda>(s, es). let v = PORTB_part0 s OR BV b
                in (s\<lparr>PORTB_part0 := v\<rparr>, es @ [WritePORTB v]))"

definition run_part0 :: "action_part0 list \<Rightarrow> state_part0 \<times> event list \<Rightarrow> state_part0 \<times> event list" where
  "run_part0 acts x = fold (\<lambda>a y. a y) acts x"

definition ISR_part0 :: "state_part0 \<Rightarrow> (state_part0 \<times> event list) option" where
  "ISR_part0 s =
     (let x0 = call_waitTimer1_part0 (V_SYNCH_PULSE_TICKS + V_BACK_PORCH_TICKS) (s, []);
          (s1, es) =
        (if phase_part0 s = FRONT_PORCH then
           (if line_number s = H_FRONT_PORCH_LINES - 1
            then bitClear_PORTB HSYNCH_PIN_part0 x0 else x0)
         else if phase_part0 s = SYNCH_PULSE then
           (if line_number s = H_SYNCH_PULSE_LINES - 1
            then bitSet_PORTB HSYNCH_PIN_part0 x0 else x0)
         else if phase_part0 s = ACTIVE_VIDEO then
           run_part0
             [set_PORTD_part0 RED,
              call_waitTimer1_part0
                (V_SYNCH_PULSE_TICKS + V_BACK_PORCH_TICKS + (V_ACTIVE_VIDEO_TICKS div 8)),
              set_PORTD_part0 GREEN,
              call_waitTimer1_part0
                (V_SYNCH_PULSE_TICKS + V_BACK_PORCH_TICKS + ((V_ACTIVE_VIDEO_TICKS * 2) div 8)),
              set_PORTD_part0 BLUE,
              call_waitTimer1_part0
                (V_SYNCH_PULSE_TICKS + V_BACK_PORCH_TICKS + ((V_ACTIVE_VIDEO_TICKS * 3) div 8)),
              set_PORTD_part0 CYAN,
              call_waitTimer1_part0
                (V_SYNCH_PULSE_TICKS + V_BACK_PORCH_TICKS + ((V_ACTIVE_VIDEO_TICKS * 4) div 8)),
              set_PORTD_part0 YELLOW,
              call_waitTimer1_part0
                (V_SYNCH_PULSE_TICKS + V_BACK_PORCH_TICKS + ((V_ACTIVE_VIDEO_TICKS * 5) div 8)),
              set_PORTD_part0 MAGENTA,
              call_waitTimer1_part0
                (V_SYNCH_PULSE_TICKS + V_BACK_PORCH_TICKS + ((V_ACTIVE_VIDEO_TICKS * 6) div 8)),
              set_PORTD_part0 BLACK,
              call_waitTimer1_part0
                (V_SYNCH_PULSE_TICKS + V_BACK_PORCH_TICKS + ((V_ACTIVE_VIDEO_TICKS * 7) div 8)),
              set_PORTD_part0 WHITE,
              call_waitTimer1_part0
                (V_SYNCH_PULSE_TICKS + V_BACK_PORCH_TICKS + V_ACTIVE_VIDEO_TICKS),
              set_PORTD_part0 (BV VSYNCH_PIN_part0 OR BV HSYNCH_PIN_part0)] x0
         else x0)
      in case incrementLineNumber_part0 s1 of
           None \<Rightarrow> None
         | Some s2 \<Rightarrow> Some (s2, es))"

subsection \<open>Initialisation\<close>

text \<open>
  \<^verbatim>\<open>init_video\<close>, as far as it touches the state above.
\<close>

definition init_video :: "state_part0 \<Rightarrow> state_part0" where
  "init_video s =
     s\<lparr>PORTD_part0 := 0, PORTB_part0 := (BV VSYNCH_PIN_part0 OR BV HSYNCH_PIN_part0),
       line_number := 0, phase_part0 := FRONT_PORCH\<rparr>"

definition initial_part0 :: state_part0 where
  "initial_part0 =
     \<lparr>phase_part0 = FRONT_PORCH, line_number = 0,
      PORTD_part0 = 0, PORTB_part0 = (BV VSYNCH_PIN_part0 OR BV HSYNCH_PIN_part0)\<rparr>"

section \<open>Reading traces\<close>

text \<open>
  The targets written in the calls of \<^verbatim>\<open>waitTimer1\<close>, the bytes its parameter receives
  (the conversion from \<^verbatim>\<open>int\<close> to \<^verbatim>\<open>byte\<close> keeps the low 8 bits), and the bytes written
  to the RGB port and to the synch port, each in order.
\<close>

fun wait_targets :: "event list \<Rightarrow> nat list" where
  "wait_targets [] = []"
| "wait_targets (WaitTimer1 t # es) = t # wait_targets es"
| "wait_targets (e # es) = wait_targets es"

fun wait_args :: "event list \<Rightarrow> byte list" where
  "wait_args [] = []"
| "wait_args (WaitTimer1 t # es) = of_nat t # wait_args es"
| "wait_args (e # es) = wait_args es"

fun rgb_writes :: "event list \<Rightarrow> byte list" where
  "rgb_writes [] = []"
| "rgb_writes (WritePORTD v # es) = v # rgb_writes es"
| "rgb_writes (e # es) = rgb_writes es"

fun synch_writes :: "event list \<Rightarrow> byte list" where
  "synch_writes [] = []"
| "synch_writes (WritePORTB v # es) = v # synch_writes es"
| "synch_writes (e # es) = synch_writes es"

section \<open>Notions used in the statements\<close>

text \<open>
  The cyclic order of the phases: synch pulse, back porch, active video, front porch, and
  synch pulse again.
\<close>

definition successor :: "byte \<Rightarrow> byte" where
  "successor p =
     (if p = SYNCH_PULSE then BACK_PORCH else if p = BACK_PORCH then ACTIVE_VIDEO
      else if p = ACTIVE_VIDEO then FRONT_PORCH else SYNCH_PULSE)"

text \<open>
  A state at the top of phase \<open>p\<close>: the counter holds the full allotment of the phase
  (\<^verbatim>\<open>lines_left\<close> loaded from the table; \<^verbatim>\<open>line_number\<close> at 0 in the earlier variant).
\<close>

definition top_of :: "byte \<Rightarrow> state" where
  "top_of p = initial\<lparr>phase := p, lines_left := nb_line_modes ! unat p\<rparr>"

definition top_of_part0 :: "byte \<Rightarrow> state_part0" where
  "top_of_part0 p = initial_part0\<lparr>phase_part0 := p\<rparr>"

text \<open>
  A field has 524 lines.  Counting the lines from the initial state, line \<open>m\<close> of a field
  lies in the phase \<open>phase_of_line m\<close>, with \<open>left_of_line m\<close> lines of the phase still to
  come (this one included), and is line number \<open>index_of_line m\<close> of the phase.
\<close>

definition phase_of_line :: "nat \<Rightarrow> byte" where
  "phase_of_line m =
     (if m < 11 then FRONT_PORCH else if m < 13 then SYNCH_PULSE
      else if m < 44 then BACK_PORCH else ACTIVE_VIDEO)"

definition left_of_line :: "nat \<Rightarrow> nat" where
  "left_of_line m =
     (if m < 11 then 11 - m else if m < 13 then 13 - m
      else if m < 44 then 44 - m else 524 - m)"

definition index_of_line :: "nat \<Rightarrow> nat" where
  "index_of_line m =
     (if m < 11 then m else if m < 13 then m - 11
      else if m < 44 then m - 13 else m - 44)"


text \<open>
  The invariants of the line counters, read as the signed 16-bit integers they are.
  In vgarduino.ino the counter holds the lines left in the phase, this one included;
  in the earlier variant it holds the index of the line within the phase.
\<close>

definition lines_left_inv :: "state \<Rightarrow> bool" where
  "lines_left_inv s \<longleftrightarrow>
     unat (phase s) < length nb_line_modes \<and>
     0 < sint (lines_left s) \<and>
     sint (lines_left s) \<le> sint (nb_line_modes ! unat (phase s))"

definition line_number_inv :: "state_part0 \<Rightarrow> bool" where
  "line_number_inv s \<longleftrightarrow>
     unat (phase_part0 s) < length nb_line_modes_part0 \<and>
     0 \<le> sint (line_number s) \<and>
     sint (line_number s) < sint (nb_line_modes_part0 ! unat (phase_part0 s))"

text \<open>
  In the earlier variant the handler clears and sets the synch bit; these are inversions
  as long as the bit is set exactly outside the synch pulse.
\<close>

definition synch_inv_part0 :: "state_part0 \<Rightarrow> bool" where
  "synch_inv_part0 t \<longleftrightarrow>
     unat (phase_part0 t) < length nb_line_modes_part0 \<and>
     (bit (PORTB_part0 t) HSYNCH_PIN_part0 \<longleftrightarrow> phase_part0 t \<noteq> SYNCH_PULSE)"

text \<open>
  The events of one interrupt of the active video phase, with the constants evaluated
  (lemmas \<open>ISR_active\<close> and \<open>ISR_part0_active\<close> below derive them from the handlers).
\<close>

definition active_video_events :: "event list" where
  "active_video_events =
     [WaitTimer1 91,
      WritePORTD RED_MASK, DelayMicroseconds 3,
      WritePORTD GREEN_MASK, DelayMicroseconds 3,
      WritePORTD BLUE_MASK, DelayMicroseconds 3,
      WritePORTD CYAN_MASK, DelayMicroseconds 3,
      WritePORTD YELLOW_MASK, DelayMicroseconds 3,
      WritePORTD MAGENTA_MASK, DelayMicroseconds 3,
      WritePORTD BLACK_MASK, DelayMicroseconds 3,
      WritePORTD WHITE_MASK, DelayMicroseconds 3,
      WritePORTD 0]"

definition active_video_events_part0 :: "event list" where
  "active_video_events_part0 =
     [WaitTimer1 91,
      WritePORTD RED, WaitTimer1 (91 + 406 div 8),
      WritePORTD GREEN, WaitTimer1 (91 + (406 * 2) div 8),
      WritePORTD BLUE, WaitTimer1 (91 + (406 * 3) div 8),
      WritePORTD CYAN, WaitTimer1 (91 + (406 * 4) div 8),
      WritePORTD YELLOW, WaitTimer1 (91 + (406 * 5) div 8),
      WritePORTD MAGENTA, WaitTimer1 (91 + (406 * 6) div 8),
      WritePORTD BLACK, WaitTimer1 (91 + (406 * 7) div 8),
      WritePORTD WHITE, WaitTimer1 (91 + 406),
      WritePORTD 3]"

text \<open>
  The state in which the interrupt of line \<open>m\<close> of a field finds vgarduino.ino, and the
  events of that interrupt (lemma \<open>ISR_frame\<close> below derives both from the handler).  The
  synch port holds 3 except during the two lines of the synch pulse, where it holds 2.
\<close>

definition frame_state :: "nat \<Rightarrow> state" where
  "frame_state m =
     \<lparr>phase = phase_of_line m, lines_left = of_nat (left_of_line m),
      PORTD = 0, PORTB = (if 11 \<le> m \<and> m < 13 then 2 else 3)\<rparr>"

definition events_of_line :: "nat \<Rightarrow> event list" where
  "events_of_line m =
     (if m = 10 then [WaitTimer1 91, WritePORTB 2]
      else if m = 12 then [WaitTimer1 91, WritePORTB 3]
      else if 44 \<le> m then active_video_events
      else [])"

text \<open>
  The eight colour bands in the order the handlers write them.  A handler emits the bands
  when these are its writes to the RGB port, followed by the blanking write.
\<close>

definition colour_bands :: "byte list" where
  "colour_bands =
     [RED_MASK, GREEN_MASK, BLUE_MASK, CYAN_MASK, YELLOW_MASK, MAGENTA_MASK, BLACK_MASK,
      WHITE_MASK]"

definition colour_bands_part0 :: "byte list" where
  "colour_bands_part0 = [RED, GREEN, BLUE, CYAN, YELLOW, MAGENTA, BLACK, WHITE]"

definition emits_bands :: "event list \<Rightarrow> bool" where
  "emits_bands es \<longleftrightarrow> rgb_writes es = colour_bands @ [0]"

text \<open>
  The evenly spaced tick offset of band \<open>k\<close>: the end of the back porch plus
  \<open>k\<close> times the active width over 8, in integer division.
\<close>

definition band_offset :: "nat \<Rightarrow> nat \<Rightarrow> nat \<Rightarrow> nat" where
  "band_offset back_porch_end active_width k = back_porch_end + (k * active_width) div 8"

section \<open>The line counter of vgarduino.ino\<close>

lemma and3_cases: "(p::byte) AND 3 = 0 \<or> p AND 3 = 1 \<or> p AND 3 = 2 \<or> p AND 3 = 3"
proof -
  have "p AND 3 \<le> 3" by (rule word_and_le1)
  then have "unat (p AND 3) \<le> 3" by (simp add: word_le_nat_alt)
  then have "unat (p AND 3) = 0 \<or> unat (p AND 3) = 1 \<or> unat (p AND 3) = 2 \<or> unat (p AND 3) = 3"
    by arith
  moreover have e: "p AND 3 = of_nat (unat (p AND 3))" by simp
  ultimately show ?thesis
  proof (elim disjE)
    assume "unat (p AND 3) = 0" with e show ?thesis by simp
  next
    assume "unat (p AND 3) = 1" with e show ?thesis by simp
  next
    assume "unat (p AND 3) = 2" with e show ?thesis by simp
  next
    assume "unat (p AND 3) = 3" with e show ?thesis by simp
  qed
qed

lemma nb_line_modes_at_simps:
  "nb_line_modes_at 0 = Some 2" "nb_line_modes_at 1 = Some 31"
  "nb_line_modes_at 2 = Some 480" "nb_line_modes_at 3 = Some 11"
  by (simp_all add: nb_line_modes_at_def nb_line_modes_def V_SYNCH_PULSE_LINES_def
      V_BACK_PORCH_LINES_def V_ACTIVE_VIDEO_LINES_def V_FRONT_PORCH_LINES_def)

lemma nb_line_modes_at_and3: "\<exists>n. nb_line_modes_at (p AND 3) = Some n"
  using and3_cases [of p] by (elim disjE) (simp_all add: nb_line_modes_at_simps)

lemma incrementLineNumber_total: "\<exists>s'. incrementLineNumber s = Some s'"
proof -
  obtain n where "nb_line_modes_at ((phase s + 1) AND 3) = Some n"
    using nb_line_modes_at_and3 by blast
  then show ?thesis by (simp add: incrementLineNumber_def Let_def)
qed

lemma unat_of_nat_int16: "k < 65536 \<Longrightarrow> unat (of_nat k :: int16) = k"
  by (simp add: unat_of_nat)

lemma of_nat_int16_eq_0: "k < 65536 \<Longrightarrow> (of_nat k :: int16) = 0 \<longleftrightarrow> k = 0"
proof
  assume "k < 65536" "(of_nat k :: int16) = 0"
  then have "unat (of_nat k :: int16) = 0" by simp
  with \<open>k < 65536\<close> show "k = 0" by (simp only: unat_of_nat_int16)
next
  assume "k = 0" then show "(of_nat k :: int16) = 0" by simp
qed

lemma incr_countdown:
  assumes l: "lines_left s = of_nat (Suc j)" and j: "0 < j" "j < 65536"
  shows "incrementLineNumber s = Some (s\<lparr>lines_left := of_nat j\<rparr>)"
proof -
  have a: "lines_left s - 1 = of_nat j" unfolding l by simp
  have b: "(of_nat j :: int16) \<noteq> 0" using j of_nat_int16_eq_0 by blast
  show ?thesis unfolding incrementLineNumber_def Let_def by (simp add: a b)
qed

lemma incr_boundary:
  assumes "lines_left s = 1" "nb_line_modes_at ((phase s + 1) AND 3) = Some n"
  shows "incrementLineNumber s = Some (s\<lparr>phase := (phase s + 1) AND 3, lines_left := n\<rparr>)"
  using assms by (simp add: incrementLineNumber_def Let_def)

lemma advance_snoc:
  "advance (Suc n) s = (case advance n s of None \<Rightarrow> None | Some s' \<Rightarrow> incrementLineNumber s')"
proof (induction n arbitrary: s)
  case 0
  show ?case by (simp split: option.splits)
next
  case (Suc n)
  show ?case
  proof (cases "incrementLineNumber s")
    case None
    then show ?thesis by simp
  next
    case (Some s1)
    have "advance (Suc (Suc n)) s = advance (Suc n) s1" using Some by simp
    also have "\<dots> = (case advance n s1 of None \<Rightarrow> None | Some s' \<Rightarrow> incrementLineNumber s')"
      by (rule Suc.IH)
    also have "\<dots> = (case advance (Suc n) s of None \<Rightarrow> None | Some s' \<Rightarrow> incrementLineNumber s')"
      using Some by simp
    finally show ?thesis .
  qed
qed

lemma advance_add:
  "advance (m + n) s = (case advance m s of None \<Rightarrow> None | Some s' \<Rightarrow> advance n s')"
  by (induction m arbitrary: s) (simp_all split: option.splits)

lemma advance_within:
  "lines_left s = of_nat k \<Longrightarrow> n < k \<Longrightarrow> k < 65536 \<Longrightarrow>
   advance n s = Some (s\<lparr>lines_left := of_nat (k - n)\<rparr>)"
proof (induction n arbitrary: s k)
  case 0
  then show ?case by simp
next
  case (Suc n)
  then obtain j where k: "k = Suc j" and j: "n < j" "j < 65536" "0 < j"
    by (cases k) auto
  have "incrementLineNumber s = Some (s\<lparr>lines_left := of_nat j\<rparr>)"
    using Suc.prems(1) j(3,2) unfolding k by (rule incr_countdown)
  moreover have "advance n (s\<lparr>lines_left := of_nat j\<rparr>)
      = Some (s\<lparr>lines_left := of_nat j\<rparr>\<lparr>lines_left := of_nat (j - n)\<rparr>)"
    by (rule Suc.IH) (use j in simp_all)
  ultimately show ?case by (simp add: k)
qed

lemma advance_phase_end:
  assumes "lines_left s = of_nat k" "0 < k" "k < 65536"
    and "nb_line_modes_at ((phase s + 1) AND 3) = Some m"
  shows "advance k s = Some (s\<lparr>phase := (phase s + 1) AND 3, lines_left := m\<rparr>)"
proof -
  obtain j where k: "k = Suc j" using assms(2) by (cases k) auto
  have "advance j s = Some (s\<lparr>lines_left := of_nat (k - j)\<rparr>)"
    using assms(1) _ assms(3) by (rule advance_within) (simp add: k)
  then have a: "advance j s = Some (s\<lparr>lines_left := 1\<rparr>)" by (simp add: k)
  have "incrementLineNumber (s\<lparr>lines_left := 1\<rparr>)
      = Some (s\<lparr>lines_left := 1\<rparr>\<lparr>phase := (phase (s\<lparr>lines_left := 1\<rparr>) + 1) AND 3, lines_left := m\<rparr>)"
    by (rule incr_boundary) (use assms(4) in simp_all)
  then show ?thesis unfolding k advance_snoc a by simp
qed

lemmas consts_defs = SYNCH_PULSE_def BACK_PORCH_def ACTIVE_VIDEO_def FRONT_PORCH_def
  V_SYNCH_PULSE_LINES_def V_BACK_PORCH_LINES_def V_ACTIVE_VIDEO_LINES_def V_FRONT_PORCH_LINES_def

lemma top_of_simps:
  "top_of 3 = initial"
  "top_of 0 = initial\<lparr>phase := 0, lines_left := 2\<rparr>"
  "top_of 1 = initial\<lparr>phase := 1, lines_left := 31\<rparr>"
  "top_of 2 = initial\<lparr>phase := 2, lines_left := 480\<rparr>"
  by (simp_all add: top_of_def initial_def nb_line_modes_def consts_defs)

lemma phase_top_of: "phase (top_of p) = p" 
  by (simp add: top_of_def)

lemma lines_left_top_of:
  "lines_left (top_of 0) = of_nat 2" "lines_left (top_of 1) = of_nat 31"
  "lines_left (top_of 2) = of_nat 480" "lines_left (top_of 3) = of_nat 11"
  by (simp_all add: top_of_def initial_def nb_line_modes_def consts_defs)

lemma top_of_upd:
  "(top_of 3)\<lparr>phase := 0, lines_left := 2\<rparr> = top_of 0"
  "(top_of 0)\<lparr>phase := 1, lines_left := 31\<rparr> = top_of 1"
  "(top_of 1)\<lparr>phase := 2, lines_left := 480\<rparr> = top_of 2"
  "(top_of 2)\<lparr>phase := 3, lines_left := 11\<rparr> = top_of 3"
  by (simp_all add: top_of_def initial_def nb_line_modes_def consts_defs)

lemma phase_end:
  "advance 11 (top_of 3) = Some (top_of 0)"
  "advance 2 (top_of 0) = Some (top_of 1)"
  "advance 31 (top_of 1) = Some (top_of 2)"
  "advance 480 (top_of 2) = Some (top_of 3)"
proof -
  show "advance 11 (top_of 3) = Some (top_of 0)"
    using advance_phase_end [of "top_of 3" 11 2]
    by (simp add: phase_top_of lines_left_top_of nb_line_modes_at_simps top_of_upd)
  show "advance 2 (top_of 0) = Some (top_of 1)"
    using advance_phase_end [of "top_of 0" 2 31]
    by (simp add: phase_top_of lines_left_top_of nb_line_modes_at_simps top_of_upd)
  show "advance 31 (top_of 1) = Some (top_of 2)"
    using advance_phase_end [of "top_of 1" 31 480]
    by (simp add: phase_top_of lines_left_top_of nb_line_modes_at_simps top_of_upd)
  show "advance 480 (top_of 2) = Some (top_of 3)"
    using advance_phase_end [of "top_of 2" 480 11]
    by (simp add: phase_top_of lines_left_top_of nb_line_modes_at_simps top_of_upd)
qed

lemma advance_top_within:
  assumes "lines_left (top_of p) = of_nat k" "n < k" "k < 65536"
  shows "advance n (top_of p) = Some (initial\<lparr>phase := p, lines_left := of_nat (k - n)\<rparr>)"
  using advance_within [OF assms] by (simp add: top_of_def)

lemma advance_frame:
  assumes "m < 524"
  shows "advance m initial
           = Some (initial\<lparr>phase := phase_of_line m, lines_left := of_nat (left_of_line m)\<rparr>)"
proof -
  consider "m < 11" | "11 \<le> m" "m < 13" | "13 \<le> m" "m < 44" | "44 \<le> m" "m < 524"
    using assms by linarith
  then show ?thesis
  proof cases
    case 1
    have "advance m (top_of 3) = Some (initial\<lparr>phase := 3, lines_left := of_nat (11 - m)\<rparr>)"
      by (rule advance_top_within) (simp_all add: lines_left_top_of 1)
    then show ?thesis using 1
      by (simp add: top_of_simps phase_of_line_def left_of_line_def consts_defs)
  next
    case 2
    define j where "j = m - 11"
    have m: "m = 11 + j" and j: "j < 2" using 2 by (simp_all add: j_def)
    have "advance m initial = advance j (top_of 0)"
      unfolding m advance_add using phase_end(1) by (simp add: top_of_simps(1))
    moreover have "advance j (top_of 0) = Some (initial\<lparr>phase := 0, lines_left := of_nat (2 - j)\<rparr>)"
      by (rule advance_top_within) (simp_all add: lines_left_top_of j)
    moreover have "2 - j = 13 - m" using 2 by (simp add: m)
    ultimately show ?thesis using 2
      by (simp add: phase_of_line_def left_of_line_def consts_defs)
  next
    case 3
    define j where "j = m - 13"
    have m: "m = 11 + (2 + j)" and j: "j < 31" using 3 by (simp_all add: j_def)
    have "advance m initial = advance j (top_of 1)"
      unfolding m advance_add using phase_end(1,2) by (simp add: top_of_simps(1))
    moreover have "advance j (top_of 1) = Some (initial\<lparr>phase := 1, lines_left := of_nat (31 - j)\<rparr>)"
      by (rule advance_top_within) (simp_all add: lines_left_top_of j)
    moreover have "31 - j = 44 - m" using 3 by (simp add: m)
    ultimately show ?thesis using 3
      by (simp add: phase_of_line_def left_of_line_def consts_defs)
  next
    case 4
    define j where "j = m - 44"
    have m: "m = 11 + (2 + (31 + j))" and j: "j < 480" using 4 by (simp_all add: j_def)
    have "advance m initial = advance j (top_of 2)"
      unfolding m advance_add using phase_end(1,2,3) by (simp add: top_of_simps(1))
    moreover have "advance j (top_of 2) = Some (initial\<lparr>phase := 2, lines_left := of_nat (480 - j)\<rparr>)"
      by (rule advance_top_within) (simp_all add: lines_left_top_of j)
    moreover have "480 - j = 524 - m" using 4 by (simp add: m)
    ultimately show ?thesis using 4
      by (simp add: phase_of_line_def left_of_line_def consts_defs)
  qed
qed

lemma advance_period: "advance 524 initial = Some initial"
proof -
  have "advance (11 + (2 + (31 + 480))) (top_of 3) = Some (top_of 3)"
    unfolding advance_add by (simp add: phase_end)
  then show ?thesis by (simp add: top_of_simps)
qed

lemma advance_mod: "advance n initial = advance (n mod 524) initial"
proof (induction n rule: less_induct)
  case (less n)
  show ?case
  proof (cases "n < 524")
    case True
    then show ?thesis by simp
  next
    case False
    then have n: "n = 524 + (n - 524)" by simp
    have "advance n initial = advance (n - 524) initial"
      by (subst n, unfold advance_add) (simp add: advance_period)
    also have "\<dots> = advance ((n - 524) mod 524) initial"
      using False by (intro less.IH) simp
    also have "(n - 524) mod 524 = n mod 524"
      using False by (simp add: le_mod_geq)
    finally show ?thesis .
  qed
qed

section \<open>The line counter of the earlier variant\<close>

lemma nb_line_modes_at_part0_simps:
  "nb_line_modes_at_part0 0 = Some 2" "nb_line_modes_at_part0 1 = Some 31"
  "nb_line_modes_at_part0 2 = Some 480" "nb_line_modes_at_part0 3 = Some 11"
  by (simp_all add: nb_line_modes_at_part0_def nb_line_modes_part0_def H_SYNCH_PULSE_LINES_def
      H_BACK_PORCH_LINES_def H_ACTIVE_VIDEO_LINES_def H_FRONT_PORCH_LINES_def)

lemma of_nat_int16_inj:
  assumes "(of_nat j :: int16) = of_nat k" "j < 65536" "k < 65536"
  shows "j = k"
proof -
  have "unat (of_nat j :: int16) = unat (of_nat k :: int16)" using assms(1) by simp
  then show ?thesis using assms(2,3) by (simp only: unat_of_nat_int16)
qed

lemma incr0_countup:
  assumes nb: "nb_line_modes_at_part0 (phase_part0 s) = Some (of_nat k)"
    and l: "line_number s = of_nat j" and jk: "Suc j < k" "k < 65536"
  shows "incrementLineNumber_part0 s = Some (s\<lparr>line_number := of_nat (Suc j)\<rparr>)"
proof -
  have a: "line_number s + 1 = of_nat (Suc j)" unfolding l by simp
  have b: "(of_nat (Suc j) :: int16) \<noteq> of_nat k"
    using of_nat_int16_inj [of "Suc j" k] jk by auto
  have b': "line_number s + 1 \<noteq> of_nat k" unfolding a by (rule b)
  show ?thesis unfolding a [symmetric]
    by (simp add: incrementLineNumber_part0_def Let_def nb b')
qed

lemma incr0_boundary:
  assumes "nb_line_modes_at_part0 (phase_part0 s) = Some n" "line_number s + 1 = n"
  shows "incrementLineNumber_part0 s
           = Some (s\<lparr>line_number := 0, phase_part0 := (phase_part0 s + 1) AND 3\<rparr>)"
  using assms by (simp add: incrementLineNumber_part0_def Let_def)

lemma advance_part0_snoc:
  "advance_part0 (Suc n) s
     = (case advance_part0 n s of None \<Rightarrow> None | Some s' \<Rightarrow> incrementLineNumber_part0 s')"
proof (induction n arbitrary: s)
  case 0
  show ?case by (simp split: option.splits)
next
  case (Suc n)
  show ?case
  proof (cases "incrementLineNumber_part0 s")
    case None
    then show ?thesis by simp
  next
    case (Some s1)
    have "advance_part0 (Suc (Suc n)) s = advance_part0 (Suc n) s1" using Some by simp
    also have "\<dots> = (case advance_part0 n s1 of None \<Rightarrow> None
                        | Some s' \<Rightarrow> incrementLineNumber_part0 s')"
      by (rule Suc.IH)
    also have "\<dots> = (case advance_part0 (Suc n) s of None \<Rightarrow> None
                        | Some s' \<Rightarrow> incrementLineNumber_part0 s')"
      using Some by simp
    finally show ?thesis .
  qed
qed

lemma advance_part0_add:
  "advance_part0 (m + n) s
     = (case advance_part0 m s of None \<Rightarrow> None | Some s' \<Rightarrow> advance_part0 n s')"
  by (induction m arbitrary: s) (simp_all split: option.splits)

lemma advance_part0_within:
  "nb_line_modes_at_part0 (phase_part0 s) = Some (of_nat k) \<Longrightarrow> line_number s = of_nat j \<Longrightarrow>
   j + n < k \<Longrightarrow> k < 65536 \<Longrightarrow>
   advance_part0 n s = Some (s\<lparr>line_number := of_nat (j + n)\<rparr>)"
proof (induction n arbitrary: s j)
  case 0
  then show ?case by simp
next
  case (Suc n)
  have "incrementLineNumber_part0 s = Some (s\<lparr>line_number := of_nat (Suc j)\<rparr>)"
    using Suc.prems(1,2) _ Suc.prems(4) by (rule incr0_countup) (use Suc.prems(3) in simp)
  moreover have "advance_part0 n (s\<lparr>line_number := of_nat (Suc j)\<rparr>)
      = Some (s\<lparr>line_number := of_nat (Suc j)\<rparr>\<lparr>line_number := of_nat (Suc j + n)\<rparr>)"
    by (rule Suc.IH) (use Suc.prems in simp_all)
  ultimately show ?case by simp
qed

lemma advance_part0_phase_end:
  assumes nb: "nb_line_modes_at_part0 (phase_part0 s) = Some (of_nat k)"
    and l: "line_number s = 0" and k: "0 < k" "k < 65536"
  shows "advance_part0 k s = Some (s\<lparr>line_number := 0, phase_part0 := (phase_part0 s + 1) AND 3\<rparr>)"
proof -
  obtain i where ki: "k = Suc i" using k(1) by (cases k) auto
  have "advance_part0 i s = Some (s\<lparr>line_number := of_nat (0 + i)\<rparr>)"
    using nb _ _ k(2) by (rule advance_part0_within) (simp_all add: l ki)
  then have a: "advance_part0 i s = Some (s\<lparr>line_number := of_nat i\<rparr>)" by simp
  have "incrementLineNumber_part0 (s\<lparr>line_number := of_nat i\<rparr>)
      = Some (s\<lparr>line_number := of_nat i\<rparr>\<lparr>line_number := 0,
           phase_part0 := (phase_part0 (s\<lparr>line_number := of_nat i\<rparr>) + 1) AND 3\<rparr>)"
    by (rule incr0_boundary [where n = "of_nat k"]) (simp_all add: nb ki)
  then show ?thesis unfolding ki advance_part0_snoc a by simp
qed

lemma top_of_part0_simps:
  "phase_part0 (top_of_part0 p) = p" "line_number (top_of_part0 p) = 0"
  "(top_of_part0 p)\<lparr>line_number := 0, phase_part0 := q\<rparr> = top_of_part0 q"
  by (simp_all add: top_of_part0_def initial_part0_def)

lemma top_of_part0_3: "top_of_part0 3 = initial_part0"
  by (simp add: top_of_part0_def initial_part0_def FRONT_PORCH_def)

lemma phase_end_part0:
  "advance_part0 11 (top_of_part0 3) = Some (top_of_part0 0)"
  "advance_part0 2 (top_of_part0 0) = Some (top_of_part0 1)"
  "advance_part0 31 (top_of_part0 1) = Some (top_of_part0 2)"
  "advance_part0 480 (top_of_part0 2) = Some (top_of_part0 3)"
proof -
  show "advance_part0 11 (top_of_part0 3) = Some (top_of_part0 0)"
    using advance_part0_phase_end [of "top_of_part0 3" 11]
    by (simp add: top_of_part0_simps nb_line_modes_at_part0_simps)
  show "advance_part0 2 (top_of_part0 0) = Some (top_of_part0 1)"
    using advance_part0_phase_end [of "top_of_part0 0" 2]
    by (simp add: top_of_part0_simps nb_line_modes_at_part0_simps)
  show "advance_part0 31 (top_of_part0 1) = Some (top_of_part0 2)"
    using advance_part0_phase_end [of "top_of_part0 1" 31]
    by (simp add: top_of_part0_simps nb_line_modes_at_part0_simps)
  show "advance_part0 480 (top_of_part0 2) = Some (top_of_part0 3)"
    using advance_part0_phase_end [of "top_of_part0 2" 480]
    by (simp add: top_of_part0_simps nb_line_modes_at_part0_simps)
qed

lemma advance_top_part0_within:
  assumes "nb_line_modes_at_part0 p = Some (of_nat k)" "n < k" "k < 65536"
  shows "advance_part0 n (top_of_part0 p)
           = Some (initial_part0\<lparr>phase_part0 := p, line_number := of_nat n\<rparr>)"
  using advance_part0_within [of "top_of_part0 p" k 0 n] assms
  by (simp add: top_of_part0_simps) (simp add: top_of_part0_def)

lemma advance_part0_frame:
  assumes "m < 524"
  shows "advance_part0 m initial_part0
           = Some (initial_part0\<lparr>phase_part0 := phase_of_line m,
                                  line_number := of_nat (index_of_line m)\<rparr>)"
proof -
  consider "m < 11" | "11 \<le> m" "m < 13" | "13 \<le> m" "m < 44" | "44 \<le> m" "m < 524"
    using assms by linarith
  then show ?thesis
  proof cases
    case 1
    have "advance_part0 m (top_of_part0 3)
        = Some (initial_part0\<lparr>phase_part0 := 3, line_number := of_nat m\<rparr>)"
      by (rule advance_top_part0_within [where k = 11])
         (simp_all add: nb_line_modes_at_part0_simps 1)
    then show ?thesis using 1
      by (simp add: top_of_part0_3 phase_of_line_def index_of_line_def consts_defs)
  next
    case 2
    define j where "j = m - 11"
    have m: "m = 11 + j" and j: "j < 2" using 2 by (simp_all add: j_def)
    have "advance_part0 m initial_part0 = advance_part0 j (top_of_part0 0)"
      unfolding m advance_part0_add using phase_end_part0(1)
      by (simp add: top_of_part0_3)
    moreover have "advance_part0 j (top_of_part0 0)
        = Some (initial_part0\<lparr>phase_part0 := 0, line_number := of_nat j\<rparr>)"
      by (rule advance_top_part0_within [where k = 2])
         (simp_all add: nb_line_modes_at_part0_simps j)
    ultimately show ?thesis using 2
      by (simp add: phase_of_line_def index_of_line_def consts_defs j_def)
  next
    case 3
    define j where "j = m - 13"
    have m: "m = 11 + (2 + j)" and j: "j < 31" using 3 by (simp_all add: j_def)
    have "advance_part0 m initial_part0 = advance_part0 j (top_of_part0 1)"
      unfolding m advance_part0_add using phase_end_part0(1,2)
      by (simp add: top_of_part0_3)
    moreover have "advance_part0 j (top_of_part0 1)
        = Some (initial_part0\<lparr>phase_part0 := 1, line_number := of_nat j\<rparr>)"
      by (rule advance_top_part0_within [where k = 31])
         (simp_all add: nb_line_modes_at_part0_simps j)
    ultimately show ?thesis using 3
      by (simp add: phase_of_line_def index_of_line_def consts_defs j_def)
  next
    case 4
    define j where "j = m - 44"
    have m: "m = 11 + (2 + (31 + j))" and j: "j < 480" using 4 by (simp_all add: j_def)
    have "advance_part0 m initial_part0 = advance_part0 j (top_of_part0 2)"
      unfolding m advance_part0_add using phase_end_part0(1,2,3)
      by (simp add: top_of_part0_3)
    moreover have "advance_part0 j (top_of_part0 2)
        = Some (initial_part0\<lparr>phase_part0 := 2, line_number := of_nat j\<rparr>)"
      by (rule advance_top_part0_within [where k = 480])
         (simp_all add: nb_line_modes_at_part0_simps j)
    ultimately show ?thesis using 4
      by (simp add: phase_of_line_def index_of_line_def consts_defs j_def)
  qed
qed

lemma advance_part0_period: "advance_part0 524 initial_part0 = Some initial_part0"
proof -
  have "advance_part0 (11 + (2 + (31 + 480))) (top_of_part0 3) = Some (top_of_part0 3)"
    unfolding advance_part0_add by (simp add: phase_end_part0)
  then show ?thesis by (simp add: top_of_part0_3)
qed

lemma advance_part0_mod: "advance_part0 n initial_part0 = advance_part0 (n mod 524) initial_part0"
proof (induction n rule: less_induct)
  case (less n)
  show ?case
  proof (cases "n < 524")
    case True
    then show ?thesis by simp
  next
    case False
    then have n: "n = 524 + (n - 524)" by simp
    have "advance_part0 n initial_part0 = advance_part0 (n - 524) initial_part0"
      by (subst n, unfold advance_part0_add) (simp add: advance_part0_period)
    also have "\<dots> = advance_part0 ((n - 524) mod 524) initial_part0"
      using False by (intro less.IH) simp
    also have "(n - 524) mod 524 = n mod 524"
      using False by (simp add: le_mod_geq)
    finally show ?thesis .
  qed
qed

section \<open>The initial states\<close>

lemma setup_sketch_initial: "setup_sketch s = Some initial"
  by (simp add: setup_sketch_def init_video_line_timer_def init_io_def initial_def
      nb_line_modes_at_simps consts_defs)

lemma init_video_initial: "init_video s = initial_part0"
  by (simp add: init_video_def initial_part0_def)

section \<open>The phase cycle\<close>

lemma Suc_mod_524: "Suc n mod 524 = (if n mod 524 = 523 then 0 else Suc (n mod 524))"
  by (simp add: mod_Suc)

lemma phase_of_line_step:
  assumes "m < 524"
  shows "phase_of_line (if m = 523 then 0 else Suc m) = phase_of_line m
         \<or> phase_of_line (if m = 523 then 0 else Suc m) = successor (phase_of_line m)"
    and "(phase_of_line m \<noteq> SYNCH_PULSE \<and> phase_of_line (if m = 523 then 0 else Suc m) = SYNCH_PULSE)
         \<longleftrightarrow> m = 10"
  using assms by (auto simp: phase_of_line_def successor_def consts_defs)

lemma advance_initial:
  "advance n initial = Some (initial\<lparr>phase := phase_of_line (n mod 524),
                                      lines_left := of_nat (left_of_line (n mod 524))\<rparr>)"
  by (subst advance_mod) (simp add: advance_frame)

lemma advance_part0_initial:
  "advance_part0 n initial_part0
     = Some (initial_part0\<lparr>phase_part0 := phase_of_line (n mod 524),
                            line_number := of_nat (index_of_line (n mod 524))\<rparr>)"
  by (subst advance_part0_mod) (simp add: advance_part0_frame)

text \<open>
  Claim C1.  Start from the initial state and call \<^verbatim>\<open>incrementLineNumber\<close> any number
  \<open>n\<close> of times, then once more.  The phase before the last call is the phase of line
  \<open>n mod 524\<close> of the field: front porch for 11 lines, synch pulse for 2, back porch for
  31, active video for 480.  The last call leaves the phase as it is or moves it to its
  successor in the cyclic order, so no phase is skipped.  The last call enters the synch
  pulse exactly when \<open>n mod 524 = 10\<close>: two consecutive entries are 524 calls apart.
  The same holds for the earlier variant.
\<close>

theorem phase_cycle:
  "(\<exists>s s'. advance n initial = Some s \<and> incrementLineNumber s = Some s' \<and>
       phase s = phase_of_line (n mod 524) \<and>
       (phase s' = phase s \<or> phase s' = successor (phase s)) \<and>
       ((phase s \<noteq> SYNCH_PULSE \<and> phase s' = SYNCH_PULSE) \<longleftrightarrow> n mod 524 = 10)) \<and>
   (\<exists>t t'. advance_part0 n initial_part0 = Some t \<and> incrementLineNumber_part0 t = Some t' \<and>
       phase_part0 t = phase_of_line (n mod 524) \<and>
       (phase_part0 t' = phase_part0 t \<or> phase_part0 t' = successor (phase_part0 t)) \<and>
       ((phase_part0 t \<noteq> SYNCH_PULSE \<and> phase_part0 t' = SYNCH_PULSE) \<longleftrightarrow> n mod 524 = 10))"
proof (intro conjI)
  let ?m = "n mod 524"
  let ?m' = "if ?m = 523 then 0 else Suc ?m"
  have m: "?m < 524" by simp
  define s where "s = initial\<lparr>phase := phase_of_line ?m, lines_left := of_nat (left_of_line ?m)\<rparr>"
  define s' where "s' = initial\<lparr>phase := phase_of_line ?m', lines_left := of_nat (left_of_line ?m')\<rparr>"
  have a: "advance n initial = Some s" unfolding s_def by (rule advance_initial)
  have "advance (Suc n) initial = Some s'"
    unfolding s'_def advance_initial Suc_mod_524 by simp
  then have b: "incrementLineNumber s = Some s'"
    unfolding advance_snoc a by simp
  have c: "phase s = phase_of_line ?m" "phase s' = phase_of_line ?m'"
    by (simp_all add: s_def s'_def)
  show "\<exists>s s'. advance n initial = Some s \<and> incrementLineNumber s = Some s' \<and>
       phase s = phase_of_line (n mod 524) \<and>
       (phase s' = phase s \<or> phase s' = successor (phase s)) \<and>
       ((phase s \<noteq> SYNCH_PULSE \<and> phase s' = SYNCH_PULSE) \<longleftrightarrow> n mod 524 = 10)"
    using a b phase_of_line_step [OF m] unfolding c [symmetric] by blast
next
  let ?m = "n mod 524"
  let ?m' = "if ?m = 523 then 0 else Suc ?m"
  have m: "?m < 524" by simp
  define t where "t = initial_part0\<lparr>phase_part0 := phase_of_line ?m,
                                     line_number := of_nat (index_of_line ?m)\<rparr>"
  define t' where "t' = initial_part0\<lparr>phase_part0 := phase_of_line ?m',
                                      line_number := of_nat (index_of_line ?m')\<rparr>"
  have a: "advance_part0 n initial_part0 = Some t" unfolding t_def by (rule advance_part0_initial)
  have "advance_part0 (Suc n) initial_part0 = Some t'"
    unfolding t'_def advance_part0_initial Suc_mod_524 by simp
  then have b: "incrementLineNumber_part0 t = Some t'"
    unfolding advance_part0_snoc a by simp
  have c: "phase_part0 t = phase_of_line ?m" "phase_part0 t' = phase_of_line ?m'"
    by (simp_all add: t_def t'_def)
  show "\<exists>t t'. advance_part0 n initial_part0 = Some t \<and> incrementLineNumber_part0 t = Some t' \<and>
       phase_part0 t = phase_of_line (n mod 524) \<and>
       (phase_part0 t' = phase_part0 t \<or> phase_part0 t' = successor (phase_part0 t)) \<and>
       ((phase_part0 t \<noteq> SYNCH_PULSE \<and> phase_part0 t' = SYNCH_PULSE) \<longleftrightarrow> n mod 524 = 10)"
    using a b phase_of_line_step [OF m] unfolding c [symmetric] by blast
qed

section \<open>The invariant of the line counter\<close>

lemma byte_lt4_cases:
  assumes "unat (p::byte) < 4"
  shows "p = 0 \<or> p = 1 \<or> p = 2 \<or> p = 3"
proof -
  have "unat p = 0 \<or> unat p = 1 \<or> unat p = 2 \<or> unat p = 3" using assms by arith
  moreover have e: "p = of_nat (unat p)" by simp
  ultimately show ?thesis
  proof (elim disjE)
    assume "unat p = 0" with e show ?thesis by simp
  next
    assume "unat p = 1" with e show ?thesis by simp
  next
    assume "unat p = 2" with e show ?thesis by simp
  next
    assume "unat p = 3" with e show ?thesis by simp
  qed
qed

lemma successor_eq: "unat p < 4 \<Longrightarrow> (p + 1) AND 3 = successor p"
  by (drule byte_lt4_cases) (auto simp: successor_def consts_defs)

lemma unat_successor: "unat (successor p) < 4"
  by (simp add: successor_def consts_defs)

lemma nb_line_modes_nth:
  "unat (p::byte) < 4 \<Longrightarrow> nb_line_modes_at p = Some (nb_line_modes ! unat p)"
  by (simp add: nb_line_modes_at_def nb_line_modes_def)

lemma sint_nb_line_modes:
  "unat (p::byte) < 4 \<Longrightarrow> 0 < sint (nb_line_modes ! unat p) \<and> sint (nb_line_modes ! unat p) \<le> 480"
  by (drule byte_lt4_cases) (auto simp: nb_line_modes_def consts_defs)

lemma length_nb_line_modes: "length nb_line_modes = 4"
  by (simp add: nb_line_modes_def)

lemma incrementLineNumber_eq:
  "incrementLineNumber s =
     (if lines_left s = 1
      then (case nb_line_modes_at ((phase s + 1) AND 3) of
              None \<Rightarrow> None
            | Some n \<Rightarrow> Some (s\<lparr>phase := (phase s + 1) AND 3, lines_left := n\<rparr>))
      else Some (s\<lparr>lines_left := lines_left s - 1\<rparr>))"
  by (simp add: incrementLineNumber_def Let_def split: option.splits)

lemma sint_pred_int16:
  assumes "0 < sint (w::int16)"
  shows "sint (w - 1) = sint w - 1"
proof -
  have "sint w < 2 ^ 15" using sint_lt [of w] by simp
  then show ?thesis using assms
    by (simp add: sint_word_diff signed_take_bit_int_eq_self)
qed

lemma sint_eq_1_int16: "sint (w::int16) = 1 \<Longrightarrow> w = 1"
proof -
  assume "sint w = 1"
  then have "of_int (sint w) = (of_int 1 :: int16)" by simp
  then show ?thesis by simp
qed

lemma lines_left_inv_step:
  assumes "lines_left_inv s"
  shows "\<exists>s'. incrementLineNumber s = Some s' \<and> lines_left_inv s' \<and>
          (if lines_left s = 1
           then phase s' = successor (phase s) \<and> lines_left s' = nb_line_modes ! unat (phase s')
           else phase s' = phase s \<and> lines_left s' = lines_left s - 1)"
proof -
  have p: "unat (phase s) < 4" and l: "0 < sint (lines_left s)"
    and u: "sint (lines_left s) \<le> sint (nb_line_modes ! unat (phase s))"
    using assms by (simp_all add: lines_left_inv_def length_nb_line_modes)
  show ?thesis
  proof (cases "lines_left s = 1")
    case True
    have q: "(phase s + 1) AND 3 = successor (phase s)" using p by (rule successor_eq)
    have "incrementLineNumber s
        = Some (s\<lparr>phase := successor (phase s),
                  lines_left := nb_line_modes ! unat (successor (phase s))\<rparr>)"
      unfolding incrementLineNumber_eq q using True
      by (simp add: nb_line_modes_nth unat_successor)
    moreover have "lines_left_inv (s\<lparr>phase := successor (phase s),
                  lines_left := nb_line_modes ! unat (successor (phase s))\<rparr>)"
      using sint_nb_line_modes [OF unat_successor [of "phase s"]]
      by (simp add: lines_left_inv_def length_nb_line_modes unat_successor)
    ultimately show ?thesis using True by simp
  next
    case False
    have "sint (lines_left s) \<noteq> 1" using False sint_eq_1_int16 by blast
    then have "1 < sint (lines_left s)" using l by simp
    then have "lines_left_inv (s\<lparr>lines_left := lines_left s - 1\<rparr>)"
      using u p by (simp add: lines_left_inv_def length_nb_line_modes sint_pred_int16 [OF l])
    then show ?thesis using False by (simp add: incrementLineNumber_eq)
  qed
qed

lemma lines_left_inv_initial: "lines_left_inv initial"
  by (simp add: lines_left_inv_def initial_def nb_line_modes_def consts_defs)

lemma nb_line_modes_part0_nth:
  "unat (p::byte) < 4 \<Longrightarrow> nb_line_modes_at_part0 p = Some (nb_line_modes_part0 ! unat p)"
  by (simp add: nb_line_modes_at_part0_def nb_line_modes_part0_def)

lemmas consts_part0_defs = H_SYNCH_PULSE_LINES_def H_BACK_PORCH_LINES_def
  H_ACTIVE_VIDEO_LINES_def H_FRONT_PORCH_LINES_def

lemma sint_nb_line_modes_part0:
  "unat (p::byte) < 4 \<Longrightarrow>
     0 < sint (nb_line_modes_part0 ! unat p) \<and> sint (nb_line_modes_part0 ! unat p) \<le> 480"
  by (drule byte_lt4_cases) (auto simp: nb_line_modes_part0_def consts_part0_defs)

lemma length_nb_line_modes_part0: "length nb_line_modes_part0 = 4"
  by (simp add: nb_line_modes_part0_def)

lemma incrementLineNumber_part0_eq:
  "incrementLineNumber_part0 s =
     (case nb_line_modes_at_part0 (phase_part0 s) of
        None \<Rightarrow> None
      | Some n \<Rightarrow>
          if line_number s + 1 = n
          then Some (s\<lparr>line_number := 0, phase_part0 := (phase_part0 s + 1) AND 3\<rparr>)
          else Some (s\<lparr>line_number := line_number s + 1\<rparr>))"
  by (simp add: incrementLineNumber_part0_def Let_def split: option.splits)

lemma sint_succ_int16:
  assumes "0 \<le> sint (w::int16)" "sint w < 480"
  shows "sint (w + 1) = sint w + 1"
  using assms by (simp add: sint_word_add signed_take_bit_int_eq_self)

lemma sint_inj_int16: "sint (v::int16) = sint w \<Longrightarrow> v = w"
proof -
  assume "sint v = sint w"
  then have "(of_int (sint v) :: int16) = of_int (sint w)" by simp
  then show ?thesis by simp
qed

lemma line_number_inv_step:
  assumes "line_number_inv t"
  shows "\<exists>t'. incrementLineNumber_part0 t = Some t' \<and> line_number_inv t' \<and>
          (if line_number t + 1 = nb_line_modes_part0 ! unat (phase_part0 t)
           then phase_part0 t' = successor (phase_part0 t) \<and> line_number t' = 0
           else phase_part0 t' = phase_part0 t \<and> line_number t' = line_number t + 1)"
proof -
  let ?n = "nb_line_modes_part0 ! unat (phase_part0 t)"
  have p: "unat (phase_part0 t) < 4" and l: "0 \<le> sint (line_number t)"
    and u: "sint (line_number t) < sint ?n"
    using assms by (simp_all add: line_number_inv_def length_nb_line_modes_part0)
  have nb: "nb_line_modes_at_part0 (phase_part0 t) = Some ?n"
    using p by (rule nb_line_modes_part0_nth)
  have n: "sint ?n \<le> 480" using sint_nb_line_modes_part0 [OF p] by simp
  show ?thesis
  proof (cases "line_number t + 1 = ?n")
    case True
    have q: "(phase_part0 t + 1) AND 3 = successor (phase_part0 t)" using p by (rule successor_eq)
    have "line_number_inv (t\<lparr>line_number := 0, phase_part0 := successor (phase_part0 t)\<rparr>)"
      using sint_nb_line_modes_part0 [OF unat_successor [of "phase_part0 t"]]
      by (simp add: line_number_inv_def length_nb_line_modes_part0 unat_successor)
    then show ?thesis using True by (simp add: incrementLineNumber_part0_eq nb q)
  next
    case False
    have s: "sint (line_number t + 1) = sint (line_number t) + 1"
      using l u n by (intro sint_succ_int16) simp_all
    have "sint (line_number t + 1) \<noteq> sint ?n" using False sint_inj_int16 by blast
    then have "sint (line_number t + 1) < sint ?n" using u s by simp
    then have "line_number_inv (t\<lparr>line_number := line_number t + 1\<rparr>)"
      using p l s by (simp add: line_number_inv_def length_nb_line_modes_part0)
    then show ?thesis using False by (simp add: incrementLineNumber_part0_eq nb)
  qed
qed

lemma line_number_inv_initial: "line_number_inv initial_part0"
  by (simp add: line_number_inv_def initial_part0_def nb_line_modes_part0_def
      consts_defs consts_part0_defs)

text \<open>
  Claim C7.  In vgarduino.ino the predicate that the phase indexes the table and that
  \<open>0 < lines_left \<le> nb_line_modes[phase]\<close> (as signed 16-bit integers) holds in the
  initial state, and every call of \<^verbatim>\<open>incrementLineNumber\<close> from a state where it holds
  returns a state where it holds: when the counter stood at its last line the phase moves
  to its successor and the counter is loaded with the line count of the new phase,
  otherwise the phase stays and the counter goes down by one.  In the earlier variant the
  same is true of \<open>0 \<le> line_number < nb_line_modes[phase]\<close>: at the last line of a phase
  the phase moves to its successor and the index returns to 0, otherwise the index goes up
  by one.
\<close>

theorem counter_invariant:
  "lines_left_inv initial \<and>
   (lines_left_inv s \<longrightarrow>
      (\<exists>s'. incrementLineNumber s = Some s' \<and> lines_left_inv s' \<and>
          (if lines_left s = 1
           then phase s' = successor (phase s) \<and> lines_left s' = nb_line_modes ! unat (phase s')
           else phase s' = phase s \<and> lines_left s' = lines_left s - 1))) \<and>
   line_number_inv initial_part0 \<and>
   (line_number_inv t \<longrightarrow>
      (\<exists>t'. incrementLineNumber_part0 t = Some t' \<and> line_number_inv t' \<and>
          (if line_number t + 1 = nb_line_modes_part0 ! unat (phase_part0 t)
           then phase_part0 t' = successor (phase_part0 t) \<and> line_number t' = 0
           else phase_part0 t' = phase_part0 t \<and> line_number t' = line_number t + 1)))"
  using lines_left_inv_initial lines_left_inv_step [of s]
    line_number_inv_initial line_number_inv_step [of t]
  by blast

text \<open>
  A witness for C7: the invariant at the two initial states, and the step from them.
\<close>

theorem counter_invariant_witness:
  "lines_left_inv initial \<and>
   (\<exists>s'. incrementLineNumber initial = Some s' \<and> lines_left_inv s' \<and>
      phase s' = phase initial \<and> lines_left s' = lines_left initial - 1) \<and>
   line_number_inv initial_part0 \<and>
   (\<exists>t'. incrementLineNumber_part0 initial_part0 = Some t' \<and> line_number_inv t' \<and>
      phase_part0 t' = phase_part0 initial_part0 \<and>
      line_number t' = line_number initial_part0 + 1)"
proof -
  have a: "lines_left initial \<noteq> 1"
    by (simp add: initial_def consts_defs)
  have b: "line_number initial_part0 + 1
             \<noteq> nb_line_modes_part0 ! unat (phase_part0 initial_part0)"
    by (simp add: initial_part0_def nb_line_modes_part0_def consts_defs consts_part0_defs)
  show ?thesis
    using counter_invariant [of initial initial_part0] a b by simp
qed

section \<open>Exhausting a phase, and the bounds of the table\<close>

lemma unat_nb_line_modes: "map unat nb_line_modes = [2, 31, 480, 11]"
  by (simp add: nb_line_modes_def consts_defs)

text \<open>
  Claim C6.  From a state at the top of a phase \<open>P\<close> (the phase indexes the table and
  \<^verbatim>\<open>lines_left\<close> holds the table's entry for it), \<open>count(P)\<close> calls of
  \<^verbatim>\<open>incrementLineNumber\<close> lead to the top of the successor of \<open>P\<close>; the counts are
  2, 31, 480 and 11 for synch pulse, back porch, active video and front porch.
\<close>

theorem line_count_exhaustion:
  assumes "unat (phase s) < length nb_line_modes"
    and "lines_left s = nb_line_modes ! unat (phase s)"
  shows "advance (unat (nb_line_modes ! unat (phase s))) s
           = Some (s\<lparr>phase := successor (phase s),
                     lines_left := nb_line_modes ! unat (successor (phase s))\<rparr>)
         \<and> map unat nb_line_modes = [2, 31, 480, 11]"
proof -
  have p: "unat (phase s) < 4" using assms(1) by (simp add: length_nb_line_modes)
  have q: "(phase s + 1) AND 3 = successor (phase s)" using p by (rule successor_eq)
  have nb: "nb_line_modes_at ((phase s + 1) AND 3)
              = Some (nb_line_modes ! unat (successor (phase s)))"
    unfolding q by (rule nb_line_modes_nth) (rule unat_successor)
  define k where "k = unat (nb_line_modes ! unat (phase s))"
  have k: "0 < k \<and> k < 65536"
    using byte_lt4_cases [OF p] unfolding k_def
    by (elim disjE) (simp_all add: nb_line_modes_def consts_defs)
  have l: "lines_left s = of_nat k" unfolding k_def assms(2) by simp
  have "advance k s = Some (s\<lparr>phase := (phase s + 1) AND 3,
                              lines_left := nb_line_modes ! unat (successor (phase s))\<rparr>)"
    using l _ _ nb by (rule advance_phase_end) (use k in simp_all)
  then show ?thesis unfolding q k_def using unat_nb_line_modes by simp
qed

text \<open>
  A witness for C6: the 480 lines of active video lead to the top of the front porch.
\<close>

theorem line_count_exhaustion_witness:
  "advance 480 (initial\<lparr>phase := ACTIVE_VIDEO, lines_left := 480\<rparr>)
     = Some (initial\<lparr>phase := FRONT_PORCH, lines_left := 11\<rparr>)"
  using line_count_exhaustion [of "initial\<lparr>phase := ACTIVE_VIDEO, lines_left := 480\<rparr>"]
  by (simp add: nb_line_modes_def successor_def consts_defs)

text \<open>
  Claim C9.  The phase starts as \<^verbatim>\<open>FRONT_PORCH\<close>, which is 3.  In vgarduino.ino the table
  is read at the masked phase, so \<^verbatim>\<open>incrementLineNumber\<close> returns on every state, and
  it keeps the phase inside the table.  In the earlier variant the table is read at the
  current phase: the call returns whenever that phase is inside the table, and leaves it
  there.  After any number of calls from the initial state the phase is inside the
  table, in both sketches.
\<close>

theorem table_reads_in_bounds:
  "phase initial = 3 \<and>
   (\<exists>s'. incrementLineNumber s = Some s' \<and>
      (unat (phase s) < length nb_line_modes \<longrightarrow> unat (phase s') < length nb_line_modes)) \<and>
   (\<exists>r. advance n initial = Some r \<and> unat (phase r) < length nb_line_modes) \<and>
   phase_part0 initial_part0 = 3 \<and>
   (unat (phase_part0 t) < length nb_line_modes_part0 \<longrightarrow>
      (\<exists>t'. incrementLineNumber_part0 t = Some t' \<and>
         unat (phase_part0 t') < length nb_line_modes_part0)) \<and>
   (\<exists>r. advance_part0 n initial_part0 = Some r \<and>
      unat (phase_part0 r) < length nb_line_modes_part0)"
proof (intro conjI)
  show "phase initial = 3" by (simp add: initial_def consts_defs)
  show "phase_part0 initial_part0 = 3" by (simp add: initial_part0_def consts_defs)
  have ph: "unat (phase_of_line m) < 4" for m
    by (simp add: phase_of_line_def consts_defs)
  show "\<exists>r. advance n initial = Some r \<and> unat (phase r) < length nb_line_modes"
    unfolding advance_initial length_nb_line_modes using ph by simp
  show "\<exists>r. advance_part0 n initial_part0 = Some r \<and>
      unat (phase_part0 r) < length nb_line_modes_part0"
    unfolding advance_part0_initial length_nb_line_modes_part0 using ph by simp
  have m: "unat ((p::byte) AND 3) < 4" for p
    using and3_cases [of p] by (elim disjE) simp_all
  obtain k where "nb_line_modes_at ((phase s + 1) AND 3) = Some k"
    using nb_line_modes_at_and3 by blast
  then show "\<exists>s'. incrementLineNumber s = Some s' \<and>
      (unat (phase s) < length nb_line_modes \<longrightarrow> unat (phase s') < length nb_line_modes)"
    using m [of "phase s + 1"]
    by (simp add: incrementLineNumber_eq length_nb_line_modes)
  show "unat (phase_part0 t) < length nb_line_modes_part0 \<longrightarrow>
      (\<exists>t'. incrementLineNumber_part0 t = Some t' \<and>
         unat (phase_part0 t') < length nb_line_modes_part0)"
    using m [of "phase_part0 t + 1"]
    by (simp add: incrementLineNumber_part0_eq length_nb_line_modes_part0
        nb_line_modes_part0_nth)
qed

text \<open>
  A witness for C9: the step from the two initial states.
\<close>

theorem table_reads_in_bounds_witness:
  "unat (phase initial) < length nb_line_modes \<and>
   (\<exists>s'. incrementLineNumber initial = Some s' \<and> unat (phase s') < length nb_line_modes) \<and>
   unat (phase_part0 initial_part0) < length nb_line_modes_part0 \<and>
   (\<exists>t'. incrementLineNumber_part0 initial_part0 = Some t' \<and>
      unat (phase_part0 t') < length nb_line_modes_part0)"
proof -
  have "unat (phase initial) < length nb_line_modes"
    by (simp add: initial_def nb_line_modes_def consts_defs)
  moreover have "unat (phase_part0 initial_part0) < length nb_line_modes_part0"
    by (simp add: initial_part0_def nb_line_modes_part0_def consts_defs)
  ultimately show ?thesis
    using table_reads_in_bounds [of initial 0 initial_part0] by blast
qed

section \<open>The interrupt handlers, case by case\<close>

lemmas action_defs = run_def call_waitTimer1_def delayMicroseconds_def set_PORTD_def xor_PORTB_def

lemma ticks_91: "H_SYNCH_PULSE_TICKS + H_BACK_PORCH_TICKS = 91"
  by (simp add: H_SYNCH_PULSE_TICKS_def H_BACK_PORCH_TICKS_def)

lemma BV_VSYNCH_PIN: "BV VSYNCH_PIN = 1"
  by (simp add: BV_def VSYNCH_PIN_def)

lemma ISR_active:
  assumes "phase s = ACTIVE_VIDEO"
  shows "ISR s = map_option (\<lambda>s2. (s2, active_video_events)) (incrementLineNumber (s\<lparr>PORTD := 0\<rparr>))"
  using assms
  by (simp add: ISR_def action_defs ticks_91 active_video_events_def split: option.splits)

lemma ISR_toggle:
  assumes "phase s = FRONT_PORCH \<or> phase s = SYNCH_PULSE" "lines_left s = 1"
  shows "ISR s = map_option (\<lambda>s2. (s2, [WaitTimer1 91, WritePORTB (PORTB s XOR 1)]))
                   (incrementLineNumber (s\<lparr>PORTB := PORTB s XOR 1\<rparr>))"
proof -
  have "phase s \<noteq> ACTIVE_VIDEO" using assms(1) by (auto simp: consts_defs)
  then show ?thesis using assms
    by (simp add: ISR_def action_defs ticks_91 BV_VSYNCH_PIN split: option.splits)
qed

lemma ISR_idle:
  assumes "phase s \<noteq> ACTIVE_VIDEO" "\<not> ((phase s = FRONT_PORCH \<or> phase s = SYNCH_PULSE) \<and> lines_left s = 1)"
  shows "ISR s = map_option (\<lambda>s2. (s2, [])) (incrementLineNumber s)"
  using assms by (auto simp add: ISR_def split: option.splits)

lemma incrementLineNumber_ports:
  assumes "incrementLineNumber s = Some s'"
  shows "PORTB s' = PORTB s" "PORTD s' = PORTD s"
  using assms by (auto simp: incrementLineNumber_eq split: if_splits option.splits)

lemma incrementLineNumber_part0_ports:
  assumes "incrementLineNumber_part0 s = Some s'"
  shows "PORTB_part0 s' = PORTB_part0 s" "PORTD_part0 s' = PORTD_part0 s"
  using assms by (auto simp: incrementLineNumber_part0_eq split: if_splits option.splits)

lemma clear_bit0: "bit (w::byte) 0 \<Longrightarrow> w AND NOT 1 = w XOR 1"
  by (rule bit_word_eqI) (auto simp: bit_simps)

lemma set_bit0: "\<not> bit (w::byte) 0 \<Longrightarrow> w OR 1 = w XOR 1"
  by (rule bit_word_eqI) (auto simp: bit_simps intro: gr0I)

lemma bit0_xor: "bit ((w::byte) XOR 1) 0 \<longleftrightarrow> \<not> bit w 0"
  by (simp add: bit_simps)

lemma ticks_91_part0: "V_SYNCH_PULSE_TICKS + V_BACK_PORCH_TICKS = 91"
  by (simp add: V_SYNCH_PULSE_TICKS_def V_BACK_PORCH_TICKS_def)

lemma BV_HSYNCH_PIN_part0: "BV HSYNCH_PIN_part0 = 1"
  by (simp add: BV_def HSYNCH_PIN_part0_def)

lemmas action_part0_defs = run_part0_def call_waitTimer1_part0_def set_PORTD_part0_def
  bitClear_PORTB_def bitSet_PORTB_def

lemma ISR_part0_front:
  assumes "phase_part0 s = FRONT_PORCH" "line_number s = H_FRONT_PORCH_LINES - 1"
  shows "ISR_part0 s = map_option (\<lambda>s2. (s2, [WaitTimer1 91, WritePORTB (PORTB_part0 s AND NOT 1)]))
            (incrementLineNumber_part0 (s\<lparr>PORTB_part0 := PORTB_part0 s AND NOT 1\<rparr>))"
  using assms
  by (simp add: ISR_part0_def action_part0_defs ticks_91_part0 BV_HSYNCH_PIN_part0 Let_def
      split: option.splits)

lemma ISR_part0_synch:
  assumes "phase_part0 s = SYNCH_PULSE" "line_number s = H_SYNCH_PULSE_LINES - 1"
  shows "ISR_part0 s = map_option (\<lambda>s2. (s2, [WaitTimer1 91, WritePORTB (PORTB_part0 s OR 1)]))
            (incrementLineNumber_part0 (s\<lparr>PORTB_part0 := PORTB_part0 s OR 1\<rparr>))"
  using assms
  by (simp add: ISR_part0_def action_part0_defs ticks_91_part0 BV_HSYNCH_PIN_part0 Let_def
      consts_defs split: option.splits)

lemma ISR_part0_idle:
  assumes "phase_part0 s \<noteq> ACTIVE_VIDEO"
    "\<not> (phase_part0 s = FRONT_PORCH \<and> line_number s = H_FRONT_PORCH_LINES - 1)"
    "\<not> (phase_part0 s = SYNCH_PULSE \<and> line_number s = H_SYNCH_PULSE_LINES - 1)"
  shows "ISR_part0 s = map_option (\<lambda>s2. (s2, [WaitTimer1 91])) (incrementLineNumber_part0 s)"
  using assms
  by (auto simp add: ISR_part0_def action_part0_defs ticks_91_part0 Let_def
      split: option.splits)

lemma ISR_part0_active:
  assumes "phase_part0 s = ACTIVE_VIDEO"
  shows "ISR_part0 s = map_option (\<lambda>s2. (s2, active_video_events_part0))
            (incrementLineNumber_part0 (s\<lparr>PORTD_part0 := 3\<rparr>))"
  using assms
  by (simp add: ISR_part0_def action_part0_defs ticks_91_part0 Let_def consts_defs
      V_ACTIVE_VIDEO_TICKS_def active_video_events_part0_def BV_def VSYNCH_PIN_part0_def
      HSYNCH_PIN_part0_def split: option.splits)

lemma synch_writes_active: "synch_writes active_video_events = []"
  by (simp add: active_video_events_def)

lemma synch_writes_active_part0: "synch_writes active_video_events_part0 = []"
  by (simp add: active_video_events_part0_def)

lemma ISR_synch:
  "\<exists>s' es. ISR s = Some (s', es) \<and>
     (if (phase s = FRONT_PORCH \<or> phase s = SYNCH_PULSE) \<and> lines_left s = 1
      then es = [WaitTimer1 (H_SYNCH_PULSE_TICKS + H_BACK_PORCH_TICKS),
                 WritePORTB (PORTB s XOR BV VSYNCH_PIN)] \<and>
           PORTB s' = PORTB s XOR BV VSYNCH_PIN
      else synch_writes es = [] \<and> PORTB s' = PORTB s)"
proof -
  consider (tg) "phase s = FRONT_PORCH \<or> phase s = SYNCH_PULSE" "lines_left s = 1"
    | (av) "phase s = ACTIVE_VIDEO"
    | (idl) "phase s \<noteq> ACTIVE_VIDEO"
        "\<not> ((phase s = FRONT_PORCH \<or> phase s = SYNCH_PULSE) \<and> lines_left s = 1)"
    by blast
  then show ?thesis
  proof cases
    case tg
    obtain s' where s': "incrementLineNumber (s\<lparr>PORTB := PORTB s XOR 1\<rparr>) = Some s'"
      using incrementLineNumber_total by blast
    have "PORTB s' = PORTB s XOR 1" using incrementLineNumber_ports(1) [OF s'] by simp
    then show ?thesis using tg s'
      by (simp add: ISR_toggle ticks_91 BV_VSYNCH_PIN)
  next
    case av
    obtain s' where s': "incrementLineNumber (s\<lparr>PORTD := 0\<rparr>) = Some s'"
      using incrementLineNumber_total by blast
    have "PORTB s' = PORTB s" using incrementLineNumber_ports(1) [OF s'] by simp
    moreover have "\<not> (phase s = FRONT_PORCH \<or> phase s = SYNCH_PULSE)"
      using av by (simp add: consts_defs)
    ultimately show ?thesis using av s'
      by (simp add: ISR_active synch_writes_active)
  next
    case idl
    obtain s' where s': "incrementLineNumber s = Some s'"
      using incrementLineNumber_total by blast
    have "PORTB s' = PORTB s" using incrementLineNumber_ports(1) [OF s'] by simp
    then show ?thesis using idl s'
      by (simp add: ISR_idle)
  qed
qed

lemma synch_inv_part0_initial: "synch_inv_part0 initial_part0"
  by (simp add: synch_inv_part0_def initial_part0_def nb_line_modes_part0_def consts_defs
      BV_def VSYNCH_PIN_part0_def HSYNCH_PIN_part0_def bit_simps)

lemma incrementLineNumber_part0_phase:
  assumes "unat (phase_part0 t) < 4"
  shows "\<exists>t'. incrementLineNumber_part0 t = Some t' \<and>
           (if line_number t + 1 = nb_line_modes_part0 ! unat (phase_part0 t)
            then phase_part0 t' = successor (phase_part0 t)
            else phase_part0 t' = phase_part0 t)"
  using assms
  by (simp add: incrementLineNumber_part0_eq nb_line_modes_part0_nth successor_eq)

lemma nb_line_modes_part0_values:
  "nb_line_modes_part0 ! unat (0::byte) = 2" "nb_line_modes_part0 ! unat (1::byte) = 31"
  "nb_line_modes_part0 ! unat (2::byte) = 480" "nb_line_modes_part0 ! unat (3::byte) = 11"
  "nb_line_modes_part0 ! 0 = 2" "nb_line_modes_part0 ! 1 = 31" "nb_line_modes_part0 ! Suc 0 = 31"
  "nb_line_modes_part0 ! 2 = 480" "nb_line_modes_part0 ! 3 = 11"
  by (simp_all add: nb_line_modes_part0_def consts_part0_defs)

lemma successor_values:
  "successor 0 = 1" "successor 1 = 2" "successor 2 = 3" "successor 3 = 0"
  by (simp_all add: successor_def consts_defs)

lemma succ_eq_int16:
  assumes "(w::int16) + 1 = n"
  shows "w = n - 1"
proof -
  have "w = (w + 1) - 1" by simp
  then show ?thesis unfolding assms .
qed

lemma incr_part0_last:
  assumes "phase_part0 u = p" "unat p < 4" "line_number u + 1 = nb_line_modes_part0 ! unat p"
  shows "\<exists>t'. incrementLineNumber_part0 u = Some t' \<and> phase_part0 t' = successor p \<and>
           PORTB_part0 t' = PORTB_part0 u"
  using assms
  by (simp add: incrementLineNumber_part0_eq nb_line_modes_part0_nth successor_eq)

lemma incr_part0_stay:
  assumes "phase_part0 u = p" "unat p < 4" "line_number u + 1 \<noteq> nb_line_modes_part0 ! unat p"
  shows "\<exists>t'. incrementLineNumber_part0 u = Some t' \<and> phase_part0 t' = p \<and>
           PORTB_part0 t' = PORTB_part0 u"
  using assms
  by (simp add: incrementLineNumber_part0_eq nb_line_modes_part0_nth)

lemma incr_part0_any:
  assumes "phase_part0 u = p" "unat p < 4"
  shows "\<exists>t'. incrementLineNumber_part0 u = Some t' \<and>
           (phase_part0 t' = p \<or> phase_part0 t' = successor p) \<and>
           PORTB_part0 t' = PORTB_part0 u"
  using incr_part0_last [OF assms] incr_part0_stay [OF assms] by blast

lemma ISR_part0_front_xor:
  assumes "phase_part0 s = 3" "line_number s = 10" "bit (PORTB_part0 s) 0"
  shows "ISR_part0 s = map_option (\<lambda>s2. (s2, [WaitTimer1 91, WritePORTB (PORTB_part0 s XOR 1)]))
            (incrementLineNumber_part0 (s\<lparr>PORTB_part0 := PORTB_part0 s XOR 1\<rparr>))"
  unfolding clear_bit0 [OF assms(3), symmetric]
  by (rule ISR_part0_front) (simp_all add: assms consts_defs consts_part0_defs)

lemma ISR_part0_synch_xor:
  assumes "phase_part0 s = 0" "line_number s = 1" "\<not> bit (PORTB_part0 s) 0"
  shows "ISR_part0 s = map_option (\<lambda>s2. (s2, [WaitTimer1 91, WritePORTB (PORTB_part0 s XOR 1)]))
            (incrementLineNumber_part0 (s\<lparr>PORTB_part0 := PORTB_part0 s XOR 1\<rparr>))"
  unfolding set_bit0 [OF assms(3), symmetric]
  by (rule ISR_part0_synch) (simp_all add: assms consts_defs consts_part0_defs)

lemma ISR_part0_synch_inv:
  assumes "synch_inv_part0 t"
  shows "\<exists>t' es. ISR_part0 t = Some (t', es) \<and> synch_inv_part0 t' \<and>
     (if (phase_part0 t = FRONT_PORCH \<and> line_number t = H_FRONT_PORCH_LINES - 1) \<or>
         (phase_part0 t = SYNCH_PULSE \<and> line_number t = H_SYNCH_PULSE_LINES - 1)
      then es = [WaitTimer1 (V_SYNCH_PULSE_TICKS + V_BACK_PORCH_TICKS),
                 WritePORTB (PORTB_part0 t XOR BV HSYNCH_PIN_part0)] \<and>
           PORTB_part0 t' = PORTB_part0 t XOR BV HSYNCH_PIN_part0
      else synch_writes es = [] \<and> PORTB_part0 t' = PORTB_part0 t)"
proof -
  have p: "unat (phase_part0 t) < 4"
    and b: "bit (PORTB_part0 t) 0 \<longleftrightarrow> phase_part0 t \<noteq> 0"
    using assms
    by (simp_all add: synch_inv_part0_def length_nb_line_modes_part0 HSYNCH_PIN_part0_def
        consts_defs)
  have inv: "synch_inv_part0 u \<longleftrightarrow> unat (phase_part0 u) < 4 \<and>
      (bit (PORTB_part0 u) 0 \<longleftrightarrow> phase_part0 u \<noteq> 0)" for u
    by (simp add: synch_inv_part0_def length_nb_line_modes_part0 HSYNCH_PIN_part0_def
        consts_defs)
  consider (fl) "phase_part0 t = 3" "line_number t = 10"
    | (fr) "phase_part0 t = 3" "line_number t \<noteq> 10"
    | (sl) "phase_part0 t = 0" "line_number t = 1"
    | (sy) "phase_part0 t = 0" "line_number t \<noteq> 1"
    | (bp) "phase_part0 t = 1"
    | (av) "phase_part0 t = 2"
    using byte_lt4_cases [OF p] by blast
  then show ?thesis
  proof cases
    case fl
    define u where "u = t\<lparr>PORTB_part0 := PORTB_part0 t XOR 1\<rparr>"
    have bt: "bit (PORTB_part0 t) 0" using b fl by simp
    have u: "phase_part0 u = 3" "line_number u + 1 = nb_line_modes_part0 ! unat (3::byte)"
      "PORTB_part0 u = PORTB_part0 t XOR 1"
      using fl by (simp_all add: u_def nb_line_modes_part0_values)
    obtain t' where t': "incrementLineNumber_part0 u = Some t'" "phase_part0 t' = 0"
      "PORTB_part0 t' = PORTB_part0 t XOR 1"
      using incr_part0_last [OF u(1) _ u(2)] u(3) by (auto simp: successor_values)
    have "synch_inv_part0 t'" using t'(2,3) bt by (simp add: inv bit0_xor)
    then show ?thesis using fl t' ISR_part0_front_xor [OF fl bt]
      by (simp add: u_def ticks_91_part0 BV_HSYNCH_PIN_part0 consts_defs consts_part0_defs)
  next
    case fr
    have ne: "line_number t + 1 \<noteq> nb_line_modes_part0 ! unat (3::byte)"
      using fr(2) succ_eq_int16 [of "line_number t" 11]
      by (auto simp: nb_line_modes_part0_values)
    obtain t' where t': "incrementLineNumber_part0 t = Some t'" "phase_part0 t' = 3"
      "PORTB_part0 t' = PORTB_part0 t"
      using incr_part0_stay [OF fr(1) _ ne] by auto
    have "synch_inv_part0 t'" using t'(2,3) b fr by (simp add: inv)
    then show ?thesis using fr t'
      by (simp add: ISR_part0_idle consts_defs consts_part0_defs)
  next
    case sl
    define u where "u = t\<lparr>PORTB_part0 := PORTB_part0 t XOR 1\<rparr>"
    have bt: "\<not> bit (PORTB_part0 t) 0" using b sl by simp
    have u: "phase_part0 u = 0" "line_number u + 1 = nb_line_modes_part0 ! unat (0::byte)"
      "PORTB_part0 u = PORTB_part0 t XOR 1"
      using sl by (simp_all add: u_def nb_line_modes_part0_values)
    obtain t' where t': "incrementLineNumber_part0 u = Some t'" "phase_part0 t' = 1"
      "PORTB_part0 t' = PORTB_part0 t XOR 1"
      using incr_part0_last [OF u(1) _ u(2)] u(3) by (auto simp: successor_values)
    have "synch_inv_part0 t'" using t'(2,3) bt by (simp add: inv bit0_xor)
    then show ?thesis using sl t' ISR_part0_synch_xor [OF sl bt]
      by (simp add: u_def ticks_91_part0 BV_HSYNCH_PIN_part0 consts_defs consts_part0_defs)
  next
    case sy
    have ne: "line_number t + 1 \<noteq> nb_line_modes_part0 ! unat (0::byte)"
      using sy(2) succ_eq_int16 [of "line_number t" 2]
      by (auto simp: nb_line_modes_part0_values)
    obtain t' where t': "incrementLineNumber_part0 t = Some t'" "phase_part0 t' = 0"
      "PORTB_part0 t' = PORTB_part0 t"
      using incr_part0_stay [OF sy(1) _ ne] by auto
    have "synch_inv_part0 t'" using t'(2,3) b sy by (simp add: inv)
    then show ?thesis using sy t'
      by (simp add: ISR_part0_idle consts_defs consts_part0_defs)
  next
    case bp
    obtain t' where t': "incrementLineNumber_part0 t = Some t'"
      "phase_part0 t' = 1 \<or> phase_part0 t' = 2" "PORTB_part0 t' = PORTB_part0 t"
      using incr_part0_any [OF bp] by (auto simp: successor_values)
    have "synch_inv_part0 t'" using t'(2,3) b bp by (auto simp add: inv)
    then show ?thesis using bp t'
      by (simp add: ISR_part0_idle consts_defs)
  next
    case av
    define u where "u = t\<lparr>PORTD_part0 := 3\<rparr>"
    have u: "phase_part0 u = 2" "PORTB_part0 u = PORTB_part0 t"
      using av by (simp_all add: u_def)
    obtain t' where t': "incrementLineNumber_part0 u = Some t'"
      "phase_part0 t' = 2 \<or> phase_part0 t' = 3" "PORTB_part0 t' = PORTB_part0 t"
      using incr_part0_any [OF u(1)] u(2) by (auto simp: successor_values)
    have "synch_inv_part0 t'" using t'(2,3) b av by (auto simp add: inv)
    then show ?thesis using av t'
      by (simp add: u_def ISR_part0_active synch_writes_active_part0 consts_defs)
  qed
qed

section \<open>A field of 524 lines\<close>

lemma frame_state_0: "frame_state 0 = initial"
  by (simp add: frame_state_def initial_def phase_of_line_def left_of_line_def consts_defs
      BV_def VSYNCH_PIN_def HSYNCH_PIN_def)

lemma frame_state_sel:
  "phase (frame_state m) = phase_of_line m"
  "lines_left (frame_state m) = of_nat (left_of_line m)"
  "PORTD (frame_state m) = 0"
  "PORTB (frame_state m) = (if 11 \<le> m \<and> m < 13 then 2 else 3)"
  by (simp_all add: frame_state_def)

lemma incr_frame_within:
  assumes "left_of_line m = Suc j" "0 < j" "j < 65536"
  shows "incrementLineNumber (frame_state m) = Some ((frame_state m)\<lparr>lines_left := of_nat j\<rparr>)"
  by (rule incr_countdown) (simp_all add: frame_state_sel assms)

lemma incr_frame_last:
  assumes "left_of_line m = 1" "nb_line_modes_at ((phase_of_line m + 1) AND 3) = Some n"
  shows "incrementLineNumber ((frame_state m)\<lparr>PORTB := b, PORTD := d\<rparr>)
           = Some ((frame_state m)\<lparr>PORTB := b, PORTD := d,
                                    phase := (phase_of_line m + 1) AND 3, lines_left := n\<rparr>)"
  using incr_boundary [of "(frame_state m)\<lparr>PORTB := b, PORTD := d\<rparr>" n] assms
  by (simp add: frame_state_sel)

lemma left_of_line_bound: "left_of_line m \<le> 524"
  unfolding left_of_line_def by (auto intro: le_trans [OF diff_le_self])

lemma lines_left_frame_ne_1:
  assumes "left_of_line m \<noteq> 1"
  shows "lines_left (frame_state m) \<noteq> 1"
proof
  assume "lines_left (frame_state m) = 1"
  then have "(of_nat (left_of_line m) :: int16) = of_nat 1" by (simp add: frame_state_sel)
  then have "left_of_line m = 1"
    by (rule of_nat_int16_inj) (use left_of_line_bound [of m] in simp_all)
  with assms show False by simp
qed

lemma ISR_frame_idle:
  assumes "phase_of_line m \<noteq> ACTIVE_VIDEO" "left_of_line m \<noteq> 1"
  shows "ISR (frame_state m) = map_option (\<lambda>s2. (s2, [])) (incrementLineNumber (frame_state m))"
  by (rule ISR_idle) (use assms lines_left_frame_ne_1 in \<open>simp_all add: frame_state_sel\<close>)

lemma ISR_frame:
  assumes "m < 524"
  shows "ISR (frame_state m) = Some (frame_state (Suc m mod 524), events_of_line m)"
proof -
  consider (a) "m < 10" | (b) "m = 10" | (c) "m = 11" | (d) "m = 12"
    | (e) "13 \<le> m" "m < 43" | (f) "m = 43" | (g) "44 \<le> m" "m < 523" | (h) "m = 523"
    using assms by linarith
  then show ?thesis
  proof cases
    case a
    have "incrementLineNumber (frame_state m) = Some ((frame_state m)\<lparr>lines_left := of_nat (10 - m)\<rparr>)"
      by (rule incr_frame_within) (use a in \<open>simp_all add: left_of_line_def\<close>)
    moreover have "ISR (frame_state m) = map_option (\<lambda>s2. (s2, [])) (incrementLineNumber (frame_state m))"
      by (rule ISR_frame_idle) (use a in \<open>simp_all add: phase_of_line_def left_of_line_def consts_defs\<close>)
    ultimately show ?thesis using a
      by (simp add: frame_state_def events_of_line_def phase_of_line_def left_of_line_def)
  next
    case b
    have "ISR (frame_state 10) = map_option (\<lambda>s2. (s2, [WaitTimer1 91, WritePORTB (PORTB (frame_state 10) XOR 1)]))
                   (incrementLineNumber ((frame_state 10)\<lparr>PORTB := PORTB (frame_state 10) XOR 1\<rparr>))"
      by (rule ISR_toggle) (simp_all add: frame_state_sel phase_of_line_def left_of_line_def)
    moreover have "incrementLineNumber ((frame_state 10)\<lparr>PORTB := 2, PORTD := 0\<rparr>)
           = Some ((frame_state 10)\<lparr>PORTB := 2, PORTD := 0,
                                    phase := (phase_of_line 10 + 1) AND 3, lines_left := 2\<rparr>)"
      by (rule incr_frame_last)
         (simp_all add: phase_of_line_def left_of_line_def consts_defs nb_line_modes_at_simps)
    ultimately show ?thesis unfolding b
      by (simp add: frame_state_def events_of_line_def phase_of_line_def left_of_line_def consts_defs)
  next
    case c
    have "incrementLineNumber (frame_state m) = Some ((frame_state m)\<lparr>lines_left := of_nat 1\<rparr>)"
      by (rule incr_frame_within) (use c in \<open>simp_all add: left_of_line_def\<close>)
    moreover have "ISR (frame_state m) = map_option (\<lambda>s2. (s2, [])) (incrementLineNumber (frame_state m))"
      by (rule ISR_frame_idle) (use c in \<open>simp_all add: phase_of_line_def left_of_line_def consts_defs\<close>)
    ultimately show ?thesis using c
      by (simp add: frame_state_def events_of_line_def phase_of_line_def left_of_line_def)
  next
    case d
    have "ISR (frame_state 12) = map_option (\<lambda>s2. (s2, [WaitTimer1 91, WritePORTB (PORTB (frame_state 12) XOR 1)]))
                   (incrementLineNumber ((frame_state 12)\<lparr>PORTB := PORTB (frame_state 12) XOR 1\<rparr>))"
      by (rule ISR_toggle) (simp_all add: frame_state_sel phase_of_line_def left_of_line_def)
    moreover have "incrementLineNumber ((frame_state 12)\<lparr>PORTB := 3, PORTD := 0\<rparr>)
           = Some ((frame_state 12)\<lparr>PORTB := 3, PORTD := 0,
                                    phase := (phase_of_line 12 + 1) AND 3, lines_left := 31\<rparr>)"
      by (rule incr_frame_last)
         (simp_all add: phase_of_line_def left_of_line_def consts_defs nb_line_modes_at_simps)
    ultimately show ?thesis unfolding d
      by (simp add: frame_state_def events_of_line_def phase_of_line_def left_of_line_def consts_defs)
  next
    case e
    have "incrementLineNumber (frame_state m) = Some ((frame_state m)\<lparr>lines_left := of_nat (43 - m)\<rparr>)"
      by (rule incr_frame_within) (use e in \<open>simp_all add: left_of_line_def\<close>)
    moreover have "ISR (frame_state m) = map_option (\<lambda>s2. (s2, [])) (incrementLineNumber (frame_state m))"
      by (rule ISR_frame_idle) (use e in \<open>simp_all add: phase_of_line_def left_of_line_def consts_defs\<close>)
    ultimately show ?thesis using e
      by (simp add: frame_state_def events_of_line_def phase_of_line_def left_of_line_def)
  next
    case f
    have "ISR (frame_state 43) = map_option (\<lambda>s2. (s2, [])) (incrementLineNumber (frame_state 43))"
      by (rule ISR_idle) (simp_all add: frame_state_sel phase_of_line_def consts_defs)
    moreover have "incrementLineNumber ((frame_state 43)\<lparr>PORTB := 3, PORTD := 0\<rparr>)
           = Some ((frame_state 43)\<lparr>PORTB := 3, PORTD := 0,
                                    phase := (phase_of_line 43 + 1) AND 3, lines_left := 480\<rparr>)"
      by (rule incr_frame_last)
         (simp_all add: phase_of_line_def left_of_line_def consts_defs nb_line_modes_at_simps)
    ultimately show ?thesis unfolding f
      by (simp add: frame_state_def events_of_line_def phase_of_line_def left_of_line_def consts_defs)
  next
    case g
    have "incrementLineNumber (frame_state m) = Some ((frame_state m)\<lparr>lines_left := of_nat (523 - m)\<rparr>)"
      by (rule incr_frame_within) (use g in \<open>simp_all add: left_of_line_def\<close>)
    moreover have "ISR (frame_state m) = map_option (\<lambda>s2. (s2, active_video_events))
                     (incrementLineNumber ((frame_state m)\<lparr>PORTD := 0\<rparr>))"
      by (rule ISR_active) (use g in \<open>simp_all add: frame_state_sel phase_of_line_def\<close>)
    moreover have "(frame_state m)\<lparr>PORTD := 0\<rparr> = frame_state m"
      by (simp add: frame_state_def)
    ultimately show ?thesis using g
      by (simp add: frame_state_def events_of_line_def phase_of_line_def left_of_line_def)
  next
    case h
    have "ISR (frame_state 523) = map_option (\<lambda>s2. (s2, active_video_events))
                     (incrementLineNumber ((frame_state 523)\<lparr>PORTD := 0\<rparr>))"
      by (rule ISR_active) (simp_all add: frame_state_sel phase_of_line_def)
    moreover have "incrementLineNumber ((frame_state 523)\<lparr>PORTB := 3, PORTD := 0\<rparr>)
           = Some ((frame_state 523)\<lparr>PORTB := 3, PORTD := 0,
                                    phase := (phase_of_line 523 + 1) AND 3, lines_left := 11\<rparr>)"
      by (rule incr_frame_last)
         (simp_all add: phase_of_line_def left_of_line_def consts_defs nb_line_modes_at_simps)
    ultimately show ?thesis unfolding h
      by (simp add: frame_state_def events_of_line_def phase_of_line_def left_of_line_def consts_defs)
  qed
qed

lemma simulate_frame:
  "simulate n (frame_state (m mod 524))
     = Some (map (\<lambda>i. (phase_of_line (i mod 524), events_of_line (i mod 524))) [m..<m + n])"
proof (induction n arbitrary: m)
  case 0
  show ?case by simp
next
  case (Suc n)
  have a: "ISR (frame_state (m mod 524))
             = Some (frame_state (Suc m mod 524), events_of_line (m mod 524))"
    using ISR_frame [of "m mod 524"] by (simp add: mod_Suc_eq)
  have b: "[m..<m + Suc n] = m # [Suc m..<Suc m + n]"
    by (simp add: upt_conv_Cons)
  show ?case unfolding b
    using Suc.IH [of "Suc m"] by (simp add: a frame_state_sel)
qed

lemma simulate_initial:
  "simulate 524 initial = Some (map (\<lambda>i. (phase_of_line i, events_of_line i)) [0..<524])"
proof -
  have "simulate 524 (frame_state (0 mod 524))
     = Some (map (\<lambda>i. (phase_of_line (i mod 524), events_of_line (i mod 524))) [0..<0 + 524])"
    by (rule simulate_frame)
  moreover have "map (\<lambda>i. (phase_of_line (i mod 524), events_of_line (i mod 524))) [0..<524]
      = map (\<lambda>i. (phase_of_line i, events_of_line i)) [0..<524]"
    by (rule map_cong) simp_all
  ultimately show ?thesis by (simp add: frame_state_0)
qed

lemma map_upt_const:
  assumes "\<And>i. a \<le> i \<Longrightarrow> i < b \<Longrightarrow> f i = c"
  shows "map f [a..<b] = replicate (b - a) c"
proof -
  have "map f [a..<b] = map (\<lambda>_. c) [a..<b]"
    by (rule map_cong) (simp_all add: assms)
  then show ?thesis by (simp add: map_replicate_const)
qed

lemma field_split: "[0..<524] = [0..<11] @ [11..<13] @ [13..<44] @ [44..<524]"
proof -
  have "[0..<524] = [0..<11] @ [11..<524]" using upt_add_eq_append [of 0 11 513] by simp
  also have "[11..<524] = [11..<13] @ [13..<524]" using upt_add_eq_append [of 11 13 511] by simp
  also have "[13..<524] = [13..<44] @ [44..<524]" using upt_add_eq_append [of 13 44 480] by simp
  finally show ?thesis .
qed

lemma phases_of_field:
  "map phase_of_line [0..<524]
     = replicate 11 FRONT_PORCH @ replicate 2 SYNCH_PULSE @ replicate 31 BACK_PORCH
       @ replicate 480 ACTIVE_VIDEO"
proof -
  have "map phase_of_line [0..<11] = replicate (11 - 0) FRONT_PORCH"
    by (rule map_upt_const) (simp add: phase_of_line_def)
  moreover have "map phase_of_line [11..<13] = replicate (13 - 11) SYNCH_PULSE"
    by (rule map_upt_const) (simp add: phase_of_line_def)
  moreover have "map phase_of_line [13..<44] = replicate (44 - 13) BACK_PORCH"
    by (rule map_upt_const) (simp add: phase_of_line_def)
  moreover have "map phase_of_line [44..<524] = replicate (524 - 44) ACTIVE_VIDEO"
    by (rule map_upt_const) (simp add: phase_of_line_def)
  ultimately show ?thesis unfolding field_split by simp
qed

lemma emits_bands_active: "emits_bands active_video_events"
  by (simp add: emits_bands_def active_video_events_def colour_bands_def)

lemma emits_bands_line: "emits_bands (events_of_line i) \<longleftrightarrow> 44 \<le> i"
  by (auto simp: events_of_line_def emits_bands_active) (simp_all add: emits_bands_def colour_bands_def)

lemma bands_of_field: "length (filter (\<lambda>i. emits_bands (events_of_line i)) [0..<524]) = 480"
proof -
  have "filter (\<lambda>i. emits_bands (events_of_line i)) [0..<44] = []"
    by (simp add: emits_bands_line)
  moreover have "filter (\<lambda>i. emits_bands (events_of_line i)) [44..<524] = [44..<524]"
    by (simp add: emits_bands_line)
  moreover have "[0..<524] = [0..<44] @ [44..<524]" using upt_add_eq_append [of 0 44 480] by simp
  ultimately show ?thesis by simp
qed

text \<open>
  Claim C8.  From the initial state, the one \<^verbatim>\<open>setup\<close> leaves (front porch, 11 lines
  left), 524 interrupts in a row
  find the phases front porch 11 times, synch pulse twice, back porch 31 times and active
  video 480 times, in this order, and exactly 480 of the 524 handlers write the eight
  colour bands (followed by the blanking write) to the RGB port.
\<close>

theorem field_scenario:
  "setup_sketch s = Some initial \<and>
   phase initial = FRONT_PORCH \<and> lines_left initial = 11 \<and>
   map_option (map fst) (simulate 524 initial)
     = Some (replicate 11 FRONT_PORCH @ replicate 2 SYNCH_PULSE @ replicate 31 BACK_PORCH
             @ replicate 480 ACTIVE_VIDEO) \<and>
   map_option (\<lambda>log. length (filter (emits_bands \<circ> snd) log)) (simulate 524 initial) = Some 480"
proof (intro conjI)
  show "setup_sketch s = Some initial" by (rule setup_sketch_initial)
  show "phase initial = FRONT_PORCH" "lines_left initial = 11"
    by (simp_all add: initial_def consts_defs)
  show "map_option (map fst) (simulate 524 initial)
     = Some (replicate 11 FRONT_PORCH @ replicate 2 SYNCH_PULSE @ replicate 31 BACK_PORCH
             @ replicate 480 ACTIVE_VIDEO)"
    unfolding simulate_initial phases_of_field [symmetric] by (simp add: comp_def)
  show "map_option (\<lambda>log. length (filter (emits_bands \<circ> snd) log)) (simulate 524 initial) = Some 480"
    unfolding simulate_initial bands_of_field [symmetric]
    by (simp add: filter_map comp_def)
qed

section \<open>The synch edge\<close>

lemma synch_writes_of_field:
  "map (\<lambda>i. length (synch_writes (events_of_line i))) [0..<524]
     = replicate 10 0 @ [1] @ [0] @ [1] @ replicate 511 0"
proof -
  let ?f = "\<lambda>i. length (synch_writes (events_of_line i))"
  have "map ?f [0..<10] = replicate (10 - 0) 0"
    by (rule map_upt_const) (simp add: events_of_line_def)
  then have A: "map ?f [0..<10] = replicate 10 0" by simp
  have "map ?f [13..<524] = replicate (524 - 13) 0"
    by (rule map_upt_const) (simp add: events_of_line_def synch_writes_active)
  then have B: "map ?f [13..<524] = replicate 511 0" by simp
  have C: "[0..<524] = [0..<10] @ [10, 11, 12] @ [13..<524]"
  proof -
    have "[0..<524] = [0..<10] @ [10..<524]" using upt_add_eq_append [of 0 10 514] by simp
    also have "[10..<524] = [10..<13] @ [13..<524]" using upt_add_eq_append [of 10 13 511] by simp
    also have "[10..<13] = [10, 11, 12]" by (simp add: upt_rec)
    finally show ?thesis .
  qed
  have D: "map ?f [10, 11, 12] = [1, 0, 1]"
    by (simp add: events_of_line_def)
  have "map ?f [0..<524] = map ?f [0..<10] @ map ?f [10, 11, 12] @ map ?f [13..<524]"
    unfolding C by (simp only: map_append)
  also have "\<dots> = replicate 10 0 @ [1, 0, 1] @ replicate 511 0"
    unfolding A B D ..
  also have "\<dots> = replicate 10 0 @ [1] @ [0] @ [1] @ replicate 511 0"
    by simp
  finally show ?thesis .
qed

text \<open>
  Claim C5.  In vgarduino.ino every interrupt either is on the last line of the front
  porch or of the synch pulse (\<^verbatim>\<open>lines_left == 1\<close>), and then calls \<^verbatim>\<open>waitTimer1\<close> with
  the end of the back porch (61 + 30 ticks) and inverts the synch bit once, or it writes
  nothing to the synch port and leaves it as it was.  Over the 524 lines of a field from
  the initial state the synch port is written once on line 10 and once on line 12, and on
  no other line.  In the earlier variant the synch bit is set exactly outside the synch
  pulse, initially and after every interrupt; on the last line of the front porch the
  handler clears it and on the last line of the synch pulse it sets it, each time an
  inversion, right after \<^verbatim>\<open>waitTimer1\<close> of 61 + 30 ticks, and on every other line it does
  not write the synch port.
\<close>

theorem synch_toggle:
  "(\<exists>s' es. ISR s = Some (s', es) \<and>
     (if (phase s = FRONT_PORCH \<or> phase s = SYNCH_PULSE) \<and> lines_left s = 1
      then es = [WaitTimer1 (H_SYNCH_PULSE_TICKS + H_BACK_PORCH_TICKS),
                 WritePORTB (PORTB s XOR BV VSYNCH_PIN)] \<and>
           PORTB s' = PORTB s XOR BV VSYNCH_PIN
      else synch_writes es = [] \<and> PORTB s' = PORTB s)) \<and>
   map_option (map (\<lambda>(p, es). length (synch_writes es))) (simulate 524 initial)
     = Some (replicate 10 0 @ [1] @ [0] @ [1] @ replicate 511 0) \<and>
   synch_inv_part0 initial_part0 \<and>
   (synch_inv_part0 t \<longrightarrow>
     (\<exists>t' es. ISR_part0 t = Some (t', es) \<and> synch_inv_part0 t' \<and>
       (if (phase_part0 t = FRONT_PORCH \<and> line_number t = H_FRONT_PORCH_LINES - 1) \<or>
           (phase_part0 t = SYNCH_PULSE \<and> line_number t = H_SYNCH_PULSE_LINES - 1)
        then es = [WaitTimer1 (V_SYNCH_PULSE_TICKS + V_BACK_PORCH_TICKS),
                   WritePORTB (PORTB_part0 t XOR BV HSYNCH_PIN_part0)] \<and>
             PORTB_part0 t' = PORTB_part0 t XOR BV HSYNCH_PIN_part0
        else synch_writes es = [] \<and> PORTB_part0 t' = PORTB_part0 t)))"
proof (intro conjI)
  show "map_option (map (\<lambda>(p, es). length (synch_writes es))) (simulate 524 initial)
     = Some (replicate 10 0 @ [1] @ [0] @ [1] @ replicate 511 0)"
    unfolding simulate_initial synch_writes_of_field [symmetric] by (simp add: comp_def)
qed (use ISR_synch synch_inv_part0_initial ISR_part0_synch_inv in blast)+

text \<open>
  A witness for C5: the last line of the front porch, in both sketches; the synch port
  goes from 3 to 2.
\<close>

theorem synch_toggle_witness:
  "(\<exists>s' es. ISR (initial\<lparr>lines_left := 1\<rparr>) = Some (s', es) \<and>
      es = [WaitTimer1 91, WritePORTB 2] \<and> PORTB s' = 2) \<and>
   synch_inv_part0 (initial_part0\<lparr>line_number := 10\<rparr>) \<and>
   (\<exists>t' es. ISR_part0 (initial_part0\<lparr>line_number := 10\<rparr>) = Some (t', es) \<and>
      es = [WaitTimer1 91, WritePORTB 2] \<and> PORTB_part0 t' = 2)"
proof -
  define s0 where "s0 = initial\<lparr>lines_left := 1\<rparr>"
  define t0 where "t0 = initial_part0\<lparr>line_number := 10\<rparr>"
  have a: "synch_inv_part0 t0"
    by (simp add: t0_def synch_inv_part0_def initial_part0_def nb_line_modes_part0_def
        consts_defs BV_def VSYNCH_PIN_part0_def HSYNCH_PIN_part0_def bit_simps)
  have c: "(phase s0 = FRONT_PORCH \<or> phase s0 = SYNCH_PULSE) \<and> lines_left s0 = 1"
    "(phase_part0 t0 = FRONT_PORCH \<and> line_number t0 = H_FRONT_PORCH_LINES - 1) \<or>
     (phase_part0 t0 = SYNCH_PULSE \<and> line_number t0 = H_SYNCH_PULSE_LINES - 1)"
    by (simp_all add: s0_def t0_def initial_def initial_part0_def consts_part0_defs)
  have v: "PORTB s0 XOR BV VSYNCH_PIN = 2" "PORTB_part0 t0 XOR BV HSYNCH_PIN_part0 = 2"
    "H_SYNCH_PULSE_TICKS + H_BACK_PORCH_TICKS = 91"
    "V_SYNCH_PULSE_TICKS + V_BACK_PORCH_TICKS = 91"
    by (simp_all add: s0_def t0_def initial_def initial_part0_def BV_def VSYNCH_PIN_def
        HSYNCH_PIN_def VSYNCH_PIN_part0_def HSYNCH_PIN_part0_def ticks_91 ticks_91_part0)
  note th = synch_toggle [of s0 t0]
  have r1: "\<exists>s' es. ISR s0 = Some (s', es) \<and>
      es = [WaitTimer1 91, WritePORTB 2] \<and> PORTB s' = 2"
    using th unfolding if_P [OF c(1)] v by blast
  have r2: "\<exists>t' es. ISR_part0 t0 = Some (t', es) \<and>
      es = [WaitTimer1 91, WritePORTB 2] \<and> PORTB_part0 t' = 2"
    using th a unfolding if_P [OF c(2)] v by blast
  show ?thesis using r1 r2 a unfolding s0_def t0_def by blast
qed

section \<open>The colour bands\<close>

lemma band_offsets_part0:
  "map (band_offset (V_SYNCH_PULSE_TICKS + V_BACK_PORCH_TICKS) V_ACTIVE_VIDEO_TICKS) [0..<9]
     = [91, 141, 192, 243, 294, 344, 395, 446, 497]"
  by (simp add: band_offset_def ticks_91_part0 V_ACTIVE_VIDEO_TICKS_def upt_rec)

lemma wait_args_active_part0:
  "wait_args active_video_events_part0 = [91, 141, 192, 243, 38, 88, 139, 190, 241]"
  by (simp add: active_video_events_part0_def)

lemma rgb_writes_active_part0:
  "rgb_writes active_video_events_part0 = colour_bands_part0 @ [3]"
  by (simp add: active_video_events_part0_def colour_bands_part0_def)

lemma wait_args_active: "wait_args active_video_events = [91]"
  by (simp add: active_video_events_def)

lemma rgb_writes_active: "rgb_writes active_video_events = colour_bands @ [0]"
  by (simp add: active_video_events_def colour_bands_def)

lemma ISR_active_ex:
  assumes "phase s = ACTIVE_VIDEO"
  shows "\<exists>s'. ISR s = Some (s', active_video_events) \<and> PORTD s' = 0"
proof -
  obtain s' where s': "incrementLineNumber (s\<lparr>PORTD := 0\<rparr>) = Some s'"
    using incrementLineNumber_total by blast
  have "PORTD s' = 0" using incrementLineNumber_ports(2) [OF s'] by simp
  then show ?thesis using s' by (simp add: ISR_active [OF assms])
qed

lemma ISR_part0_active_ex:
  assumes "phase_part0 t = ACTIVE_VIDEO"
  shows "\<exists>t'. ISR_part0 t = Some (t', active_video_events_part0) \<and> PORTD_part0 t' = 3"
proof -
  define u where "u = t\<lparr>PORTD_part0 := 3\<rparr>"
  have u: "phase_part0 u = 2" "PORTD_part0 u = 3"
    using assms by (simp_all add: u_def consts_defs)
  obtain t' where t': "incrementLineNumber_part0 u = Some t'"
    using incr_part0_any [OF u(1)] by auto
  have "PORTD_part0 t' = 3" using incrementLineNumber_part0_ports(2) [OF t'] u(2) by simp
  then show ?thesis using t' by (simp add: ISR_part0_active [OF assms] u_def)
qed

lemma active_video_events_eq:
  "active_video_events =
     [WaitTimer1 (H_SYNCH_PULSE_TICKS + H_BACK_PORCH_TICKS),
      WritePORTD RED_MASK, DelayMicroseconds 3,
      WritePORTD GREEN_MASK, DelayMicroseconds 3,
      WritePORTD BLUE_MASK, DelayMicroseconds 3,
      WritePORTD CYAN_MASK, DelayMicroseconds 3,
      WritePORTD YELLOW_MASK, DelayMicroseconds 3,
      WritePORTD MAGENTA_MASK, DelayMicroseconds 3,
      WritePORTD BLACK_MASK, DelayMicroseconds 3,
      WritePORTD WHITE_MASK, DelayMicroseconds 3,
      WritePORTD 0]"
  by (simp add: active_video_events_def ticks_91)

lemma band_offset_part0_values:
  "band_offset (V_SYNCH_PULSE_TICKS + V_BACK_PORCH_TICKS) V_ACTIVE_VIDEO_TICKS 0 = 91"
  "band_offset (V_SYNCH_PULSE_TICKS + V_BACK_PORCH_TICKS) V_ACTIVE_VIDEO_TICKS 1 = 141"
  "band_offset (V_SYNCH_PULSE_TICKS + V_BACK_PORCH_TICKS) V_ACTIVE_VIDEO_TICKS 2 = 192"
  "band_offset (V_SYNCH_PULSE_TICKS + V_BACK_PORCH_TICKS) V_ACTIVE_VIDEO_TICKS 3 = 243"
  "band_offset (V_SYNCH_PULSE_TICKS + V_BACK_PORCH_TICKS) V_ACTIVE_VIDEO_TICKS 4 = 294"
  "band_offset (V_SYNCH_PULSE_TICKS + V_BACK_PORCH_TICKS) V_ACTIVE_VIDEO_TICKS 5 = 344"
  "band_offset (V_SYNCH_PULSE_TICKS + V_BACK_PORCH_TICKS) V_ACTIVE_VIDEO_TICKS 6 = 395"
  "band_offset (V_SYNCH_PULSE_TICKS + V_BACK_PORCH_TICKS) V_ACTIVE_VIDEO_TICKS 7 = 446"
  "band_offset (V_SYNCH_PULSE_TICKS + V_BACK_PORCH_TICKS) V_ACTIVE_VIDEO_TICKS 8 = 497"
  by (simp_all add: band_offset_def ticks_91_part0 V_ACTIVE_VIDEO_TICKS_def)

lemma active_video_events_part0_eq:
  "active_video_events_part0 =
     [WaitTimer1 (band_offset (V_SYNCH_PULSE_TICKS + V_BACK_PORCH_TICKS) V_ACTIVE_VIDEO_TICKS 0),
      WritePORTD RED,
      WaitTimer1 (band_offset (V_SYNCH_PULSE_TICKS + V_BACK_PORCH_TICKS) V_ACTIVE_VIDEO_TICKS 1),
      WritePORTD GREEN,
      WaitTimer1 (band_offset (V_SYNCH_PULSE_TICKS + V_BACK_PORCH_TICKS) V_ACTIVE_VIDEO_TICKS 2),
      WritePORTD BLUE,
      WaitTimer1 (band_offset (V_SYNCH_PULSE_TICKS + V_BACK_PORCH_TICKS) V_ACTIVE_VIDEO_TICKS 3),
      WritePORTD CYAN,
      WaitTimer1 (band_offset (V_SYNCH_PULSE_TICKS + V_BACK_PORCH_TICKS) V_ACTIVE_VIDEO_TICKS 4),
      WritePORTD YELLOW,
      WaitTimer1 (band_offset (V_SYNCH_PULSE_TICKS + V_BACK_PORCH_TICKS) V_ACTIVE_VIDEO_TICKS 5),
      WritePORTD MAGENTA,
      WaitTimer1 (band_offset (V_SYNCH_PULSE_TICKS + V_BACK_PORCH_TICKS) V_ACTIVE_VIDEO_TICKS 6),
      WritePORTD BLACK,
      WaitTimer1 (band_offset (V_SYNCH_PULSE_TICKS + V_BACK_PORCH_TICKS) V_ACTIVE_VIDEO_TICKS 7),
      WritePORTD WHITE,
      WaitTimer1 (band_offset (V_SYNCH_PULSE_TICKS + V_BACK_PORCH_TICKS) V_ACTIVE_VIDEO_TICKS 8),
      WritePORTD (BV VSYNCH_PIN_part0 OR BV HSYNCH_PIN_part0)]"
  unfolding band_offset_part0_values
  by (simp add: active_video_events_part0_def BV_def VSYNCH_PIN_part0_def HSYNCH_PIN_part0_def)

lemmas colour_defs = BV_def RED_PIN_def GREEN_PIN_def BLUE_PIN_def
  BLACK_MASK_def RED_MASK_def GREEN_MASK_def BLUE_MASK_def CYAN_MASK_def YELLOW_MASK_def
  MAGENTA_MASK_def WHITE_MASK_def
  BLACK_def RED_def GREEN_def BLUE_def CYAN_def YELLOW_def MAGENTA_def WHITE_def

text \<open>
  Claim C4, as amended.  In every interrupt of the active video phase the handler writes
  the eight colours red, green, blue, cyan, yellow, magenta, black and white to the RGB
  port, in this order and each once, and last a value whose three colour bits are off.
  In vgarduino.ino only the first write is placed by \<^verbatim>\<open>waitTimer1\<close>, at the end of the back
  porch (61 + 30 ticks); every later write follows a \<^verbatim>\<open>delayMicroseconds(3)\<close>.  In the
  earlier variant the write of band \<open>k\<close> follows a call of \<^verbatim>\<open>waitTimer1\<close> whose argument
  is written as 61 + 30 + (406 * k) / 8 and converted to the byte parameter.
\<close>

theorem colour_bands_emitted:
  "(phase s = ACTIVE_VIDEO \<longrightarrow>
     (\<exists>s'. ISR s = Some (s',
        [WaitTimer1 (H_SYNCH_PULSE_TICKS + H_BACK_PORCH_TICKS),
         WritePORTD RED_MASK, DelayMicroseconds 3,
         WritePORTD GREEN_MASK, DelayMicroseconds 3,
         WritePORTD BLUE_MASK, DelayMicroseconds 3,
         WritePORTD CYAN_MASK, DelayMicroseconds 3,
         WritePORTD YELLOW_MASK, DelayMicroseconds 3,
         WritePORTD MAGENTA_MASK, DelayMicroseconds 3,
         WritePORTD BLACK_MASK, DelayMicroseconds 3,
         WritePORTD WHITE_MASK, DelayMicroseconds 3,
         WritePORTD 0]) \<and>
        PORTD s' AND WHITE_MASK = 0)) \<and>
   (phase_part0 t = ACTIVE_VIDEO \<longrightarrow>
     (\<exists>t'. ISR_part0 t = Some (t',
        [WaitTimer1 (band_offset (V_SYNCH_PULSE_TICKS + V_BACK_PORCH_TICKS) V_ACTIVE_VIDEO_TICKS 0),
         WritePORTD RED,
         WaitTimer1 (band_offset (V_SYNCH_PULSE_TICKS + V_BACK_PORCH_TICKS) V_ACTIVE_VIDEO_TICKS 1),
         WritePORTD GREEN,
         WaitTimer1 (band_offset (V_SYNCH_PULSE_TICKS + V_BACK_PORCH_TICKS) V_ACTIVE_VIDEO_TICKS 2),
         WritePORTD BLUE,
         WaitTimer1 (band_offset (V_SYNCH_PULSE_TICKS + V_BACK_PORCH_TICKS) V_ACTIVE_VIDEO_TICKS 3),
         WritePORTD CYAN,
         WaitTimer1 (band_offset (V_SYNCH_PULSE_TICKS + V_BACK_PORCH_TICKS) V_ACTIVE_VIDEO_TICKS 4),
         WritePORTD YELLOW,
         WaitTimer1 (band_offset (V_SYNCH_PULSE_TICKS + V_BACK_PORCH_TICKS) V_ACTIVE_VIDEO_TICKS 5),
         WritePORTD MAGENTA,
         WaitTimer1 (band_offset (V_SYNCH_PULSE_TICKS + V_BACK_PORCH_TICKS) V_ACTIVE_VIDEO_TICKS 6),
         WritePORTD BLACK,
         WaitTimer1 (band_offset (V_SYNCH_PULSE_TICKS + V_BACK_PORCH_TICKS) V_ACTIVE_VIDEO_TICKS 7),
         WritePORTD WHITE,
         WaitTimer1 (band_offset (V_SYNCH_PULSE_TICKS + V_BACK_PORCH_TICKS) V_ACTIVE_VIDEO_TICKS 8),
         WritePORTD (BV VSYNCH_PIN_part0 OR BV HSYNCH_PIN_part0)]) \<and>
        PORTD_part0 t' AND WHITE = 0)) \<and>
   distinct [RED_MASK, GREEN_MASK, BLUE_MASK, CYAN_MASK, YELLOW_MASK, MAGENTA_MASK, BLACK_MASK,
             WHITE_MASK] \<and>
   [RED, GREEN, BLUE, CYAN, YELLOW, MAGENTA, BLACK, WHITE]
     = [RED_MASK, GREEN_MASK, BLUE_MASK, CYAN_MASK, YELLOW_MASK, MAGENTA_MASK, BLACK_MASK,
        WHITE_MASK]"
proof (intro conjI impI)
  assume "phase s = ACTIVE_VIDEO"
  then obtain s' where "ISR s = Some (s', active_video_events)" "PORTD s' = 0"
    using ISR_active_ex by blast
  then show "\<exists>s'. ISR s = Some (s',
        [WaitTimer1 (H_SYNCH_PULSE_TICKS + H_BACK_PORCH_TICKS),
         WritePORTD RED_MASK, DelayMicroseconds 3,
         WritePORTD GREEN_MASK, DelayMicroseconds 3,
         WritePORTD BLUE_MASK, DelayMicroseconds 3,
         WritePORTD CYAN_MASK, DelayMicroseconds 3,
         WritePORTD YELLOW_MASK, DelayMicroseconds 3,
         WritePORTD MAGENTA_MASK, DelayMicroseconds 3,
         WritePORTD BLACK_MASK, DelayMicroseconds 3,
         WritePORTD WHITE_MASK, DelayMicroseconds 3,
         WritePORTD 0]) \<and>
        PORTD s' AND WHITE_MASK = 0"
    unfolding active_video_events_eq [symmetric] by simp
next
  assume "phase_part0 t = ACTIVE_VIDEO"
  then obtain t' where "ISR_part0 t = Some (t', active_video_events_part0)" "PORTD_part0 t' = 3"
    using ISR_part0_active_ex by blast
  moreover have "(3::byte) AND WHITE = 0" by (simp add: colour_defs)
  ultimately show "\<exists>t'. ISR_part0 t = Some (t',
        [WaitTimer1 (band_offset (V_SYNCH_PULSE_TICKS + V_BACK_PORCH_TICKS) V_ACTIVE_VIDEO_TICKS 0),
         WritePORTD RED,
         WaitTimer1 (band_offset (V_SYNCH_PULSE_TICKS + V_BACK_PORCH_TICKS) V_ACTIVE_VIDEO_TICKS 1),
         WritePORTD GREEN,
         WaitTimer1 (band_offset (V_SYNCH_PULSE_TICKS + V_BACK_PORCH_TICKS) V_ACTIVE_VIDEO_TICKS 2),
         WritePORTD BLUE,
         WaitTimer1 (band_offset (V_SYNCH_PULSE_TICKS + V_BACK_PORCH_TICKS) V_ACTIVE_VIDEO_TICKS 3),
         WritePORTD CYAN,
         WaitTimer1 (band_offset (V_SYNCH_PULSE_TICKS + V_BACK_PORCH_TICKS) V_ACTIVE_VIDEO_TICKS 4),
         WritePORTD YELLOW,
         WaitTimer1 (band_offset (V_SYNCH_PULSE_TICKS + V_BACK_PORCH_TICKS) V_ACTIVE_VIDEO_TICKS 5),
         WritePORTD MAGENTA,
         WaitTimer1 (band_offset (V_SYNCH_PULSE_TICKS + V_BACK_PORCH_TICKS) V_ACTIVE_VIDEO_TICKS 6),
         WritePORTD BLACK,
         WaitTimer1 (band_offset (V_SYNCH_PULSE_TICKS + V_BACK_PORCH_TICKS) V_ACTIVE_VIDEO_TICKS 7),
         WritePORTD WHITE,
         WaitTimer1 (band_offset (V_SYNCH_PULSE_TICKS + V_BACK_PORCH_TICKS) V_ACTIVE_VIDEO_TICKS 8),
         WritePORTD (BV VSYNCH_PIN_part0 OR BV HSYNCH_PIN_part0)]) \<and>
        PORTD_part0 t' AND WHITE = 0"
    unfolding active_video_events_part0_eq [symmetric] by simp
next
  show "distinct [RED_MASK, GREEN_MASK, BLUE_MASK, CYAN_MASK, YELLOW_MASK, MAGENTA_MASK,
          BLACK_MASK, WHITE_MASK]"
    by (simp add: colour_defs)
  show "[RED, GREEN, BLUE, CYAN, YELLOW, MAGENTA, BLACK, WHITE]
     = [RED_MASK, GREEN_MASK, BLUE_MASK, CYAN_MASK, YELLOW_MASK, MAGENTA_MASK, BLACK_MASK,
        WHITE_MASK]"
    by (simp add: colour_defs)
qed

text \<open>
  A witness for C4: an interrupt of the active video phase, in both sketches.
\<close>

theorem colour_bands_emitted_witness:
  "phase (initial\<lparr>phase := ACTIVE_VIDEO, lines_left := 480\<rparr>) = ACTIVE_VIDEO \<and>
   (\<exists>s'. ISR (initial\<lparr>phase := ACTIVE_VIDEO, lines_left := 480\<rparr>)
            = Some (s', active_video_events)) \<and>
   phase_part0 (initial_part0\<lparr>phase_part0 := ACTIVE_VIDEO\<rparr>) = ACTIVE_VIDEO \<and>
   (\<exists>t'. ISR_part0 (initial_part0\<lparr>phase_part0 := ACTIVE_VIDEO\<rparr>)
            = Some (t', active_video_events_part0))"
proof -
  define s0 where "s0 = initial\<lparr>phase := ACTIVE_VIDEO, lines_left := 480\<rparr>"
  define t0 where "t0 = initial_part0\<lparr>phase_part0 := ACTIVE_VIDEO\<rparr>"
  have p: "phase s0 = ACTIVE_VIDEO" "phase_part0 t0 = ACTIVE_VIDEO"
    by (simp_all add: s0_def t0_def)
  show ?thesis
    using colour_bands_emitted [of s0 t0] p
    unfolding active_video_events_eq [symmetric] active_video_events_part0_eq [symmetric]
      s0_def t0_def
    by blast
qed

text \<open>
  Claim C4 as stated fails: the handler of vgarduino.ino calls \<^verbatim>\<open>waitTimer1\<close> once, with
  91, and writes the RGB port nine times, so the colour changes of the bands 1 to 7 are
  not placed by \<^verbatim>\<open>waitTimer1\<close>; and the handler of the earlier variant passes 38, 88,
  139 and 190 where the offsets of the bands 4 to 7 are 294, 344, 395 and 446.
\<close>

theorem colour_bands_counterexample:
  "map_option (map unat \<circ> wait_args \<circ> snd)
       (ISR (initial\<lparr>phase := ACTIVE_VIDEO, lines_left := 480\<rparr>)) = Some [91] \<and>
   map_option (rgb_writes \<circ> snd)
       (ISR (initial\<lparr>phase := ACTIVE_VIDEO, lines_left := 480\<rparr>))
     = Some [RED_MASK, GREEN_MASK, BLUE_MASK, CYAN_MASK, YELLOW_MASK, MAGENTA_MASK,
             BLACK_MASK, WHITE_MASK, 0] \<and>
   map_option (map unat \<circ> wait_args \<circ> snd)
       (ISR_part0 (initial_part0\<lparr>phase_part0 := ACTIVE_VIDEO\<rparr>))
     = Some [91, 141, 192, 243, 38, 88, 139, 190, 241] \<and>
   map (band_offset (H_SYNCH_PULSE_TICKS + H_BACK_PORCH_TICKS) H_ACTIVE_VIDEO_TICKS) [0..<8]
     = [91, 141, 192, 243, 294, 344, 395, 446] \<and>
   map (band_offset (V_SYNCH_PULSE_TICKS + V_BACK_PORCH_TICKS) V_ACTIVE_VIDEO_TICKS) [0..<8]
     = [91, 141, 192, 243, 294, 344, 395, 446]"
proof -
  define s0 where "s0 = initial\<lparr>phase := ACTIVE_VIDEO, lines_left := 480\<rparr>"
  define t0 where "t0 = initial_part0\<lparr>phase_part0 := ACTIVE_VIDEO\<rparr>"
  obtain s' where s': "ISR s0 = Some (s', active_video_events)"
    using ISR_active_ex [of s0] by (auto simp: s0_def)
  obtain t' where t': "ISR_part0 t0 = Some (t', active_video_events_part0)"
    using ISR_part0_active_ex [of t0] by (auto simp: t0_def)
  have "map_option (map unat \<circ> wait_args \<circ> snd) (ISR s0) = Some [91]"
    by (simp add: s' wait_args_active)
  moreover have "map_option (rgb_writes \<circ> snd) (ISR s0)
     = Some [RED_MASK, GREEN_MASK, BLUE_MASK, CYAN_MASK, YELLOW_MASK, MAGENTA_MASK,
             BLACK_MASK, WHITE_MASK, 0]"
    by (simp add: s' rgb_writes_active colour_bands_def)
  moreover have "map_option (map unat \<circ> wait_args \<circ> snd) (ISR_part0 t0)
     = Some [91, 141, 192, 243, 38, 88, 139, 190, 241]"
    by (simp add: t' wait_args_active_part0)
  moreover have "map (band_offset (H_SYNCH_PULSE_TICKS + H_BACK_PORCH_TICKS) H_ACTIVE_VIDEO_TICKS) [0..<8]
     = [91, 141, 192, 243, 294, 344, 395, 446]"
    by (simp add: band_offset_def ticks_91 H_ACTIVE_VIDEO_TICKS_def upt_rec)
  moreover have "map (band_offset (V_SYNCH_PULSE_TICKS + V_BACK_PORCH_TICKS) V_ACTIVE_VIDEO_TICKS) [0..<8]
     = [91, 141, 192, 243, 294, 344, 395, 446]"
    by (simp add: band_offset_def ticks_91_part0 V_ACTIVE_VIDEO_TICKS_def upt_rec)
  ultimately show ?thesis unfolding s0_def t0_def by blast
qed

section \<open>The targets of the poll loop\<close>

lemma wait_args_part0_eq:
  "wait_args active_video_events_part0
     = map (\<lambda>k. of_nat (band_offset (V_SYNCH_PULSE_TICKS + V_BACK_PORCH_TICKS)
                             V_ACTIVE_VIDEO_TICKS k)) [0..<9]"
proof -
  have "[0..<9] = [0, 1, 2, 3, 4, 5, 6, 7, 8::nat]" by (simp add: upt_rec)
  moreover have "band_offset (V_SYNCH_PULSE_TICKS + V_BACK_PORCH_TICKS) V_ACTIVE_VIDEO_TICKS (Suc 0)
      = 141"
    using band_offset_part0_values(2) by simp
  ultimately show ?thesis
    by (simp add: band_offset_part0_values wait_args_active_part0)
qed

lemma band_widths_part0:
  "map (\<lambda>k. band_offset (V_SYNCH_PULSE_TICKS + V_BACK_PORCH_TICKS) V_ACTIVE_VIDEO_TICKS (Suc k)
            - band_offset (V_SYNCH_PULSE_TICKS + V_BACK_PORCH_TICKS) V_ACTIVE_VIDEO_TICKS k)
       [0..<8]
     = [50, 51, 51, 51, 50, 51, 51, 51]"
  by (simp add: band_offset_def ticks_91_part0 V_ACTIVE_VIDEO_TICKS_def upt_rec)

lemma wait_targets_active_part0:
  "wait_targets active_video_events_part0 = [91, 141, 192, 243, 294, 344, 395, 446, 497]"
  by (simp add: active_video_events_part0_def)

lemma wait_args_targets: "wait_args es = map of_nat (wait_targets es)"
  by (induction es rule: wait_targets.induct) simp_all

text \<open>
  Claim C2, as amended.  In every interrupt of the active video phase the earlier variant
  calls \<^verbatim>\<open>waitTimer1\<close> nine times, in alternation with the nine writes to the RGB port:
  a call, the write of red, a call, the write of green, and so on.  The targets written
  in the calls are 61 + 30 + (406 * k) / 8 for \<open>k\<close> from 0 to 8, that is 91, 141, 192,
  243, 294, 344, 395, 446 and 497, a strictly increasing sequence with bands 50 or 51
  ticks wide; the parameter receives each target converted to a byte.
\<close>

theorem wait_targets_part0:
  "phase_part0 t = ACTIVE_VIDEO \<longrightarrow>
     (\<exists>t' es. ISR_part0 t = Some (t', es) \<and>
        es = [WaitTimer1 (band_offset (V_SYNCH_PULSE_TICKS + V_BACK_PORCH_TICKS) V_ACTIVE_VIDEO_TICKS 0),
              WritePORTD RED,
              WaitTimer1 (band_offset (V_SYNCH_PULSE_TICKS + V_BACK_PORCH_TICKS) V_ACTIVE_VIDEO_TICKS 1),
              WritePORTD GREEN,
              WaitTimer1 (band_offset (V_SYNCH_PULSE_TICKS + V_BACK_PORCH_TICKS) V_ACTIVE_VIDEO_TICKS 2),
              WritePORTD BLUE,
              WaitTimer1 (band_offset (V_SYNCH_PULSE_TICKS + V_BACK_PORCH_TICKS) V_ACTIVE_VIDEO_TICKS 3),
              WritePORTD CYAN,
              WaitTimer1 (band_offset (V_SYNCH_PULSE_TICKS + V_BACK_PORCH_TICKS) V_ACTIVE_VIDEO_TICKS 4),
              WritePORTD YELLOW,
              WaitTimer1 (band_offset (V_SYNCH_PULSE_TICKS + V_BACK_PORCH_TICKS) V_ACTIVE_VIDEO_TICKS 5),
              WritePORTD MAGENTA,
              WaitTimer1 (band_offset (V_SYNCH_PULSE_TICKS + V_BACK_PORCH_TICKS) V_ACTIVE_VIDEO_TICKS 6),
              WritePORTD BLACK,
              WaitTimer1 (band_offset (V_SYNCH_PULSE_TICKS + V_BACK_PORCH_TICKS) V_ACTIVE_VIDEO_TICKS 7),
              WritePORTD WHITE,
              WaitTimer1 (band_offset (V_SYNCH_PULSE_TICKS + V_BACK_PORCH_TICKS) V_ACTIVE_VIDEO_TICKS 8),
              WritePORTD (BV VSYNCH_PIN_part0 OR BV HSYNCH_PIN_part0)] \<and>
        wait_targets es = [91, 141, 192, 243, 294, 344, 395, 446, 497] \<and>
        sorted_wrt (<) (wait_targets es) \<and>
        map (\<lambda>k. wait_targets es ! Suc k - wait_targets es ! k) [0..<8]
          = [50, 51, 51, 51, 50, 51, 51, 51] \<and>
        wait_args es = map of_nat (wait_targets es))"
proof
  assume "phase_part0 t = ACTIVE_VIDEO"
  then obtain t' where t': "ISR_part0 t = Some (t', active_video_events_part0)"
    using ISR_part0_active_ex by blast
  let ?es = "active_video_events_part0"
  have w: "wait_targets ?es = [91, 141, 192, 243, 294, 344, 395, 446, 497]"
    by (rule wait_targets_active_part0)
  have s: "sorted_wrt (<) (wait_targets ?es)" unfolding w by simp
  have d: "map (\<lambda>k. wait_targets ?es ! Suc k - wait_targets ?es ! k) [0..<8]
          = [50, 51, 51, 51, 50, 51, 51, 51]"
    unfolding w by (simp add: upt_rec)
  have a: "wait_args ?es = map of_nat (wait_targets ?es)" by (rule wait_args_targets)
  show "\<exists>t' es. ISR_part0 t = Some (t', es) \<and>
        es = [WaitTimer1 (band_offset (V_SYNCH_PULSE_TICKS + V_BACK_PORCH_TICKS) V_ACTIVE_VIDEO_TICKS 0),
              WritePORTD RED,
              WaitTimer1 (band_offset (V_SYNCH_PULSE_TICKS + V_BACK_PORCH_TICKS) V_ACTIVE_VIDEO_TICKS 1),
              WritePORTD GREEN,
              WaitTimer1 (band_offset (V_SYNCH_PULSE_TICKS + V_BACK_PORCH_TICKS) V_ACTIVE_VIDEO_TICKS 2),
              WritePORTD BLUE,
              WaitTimer1 (band_offset (V_SYNCH_PULSE_TICKS + V_BACK_PORCH_TICKS) V_ACTIVE_VIDEO_TICKS 3),
              WritePORTD CYAN,
              WaitTimer1 (band_offset (V_SYNCH_PULSE_TICKS + V_BACK_PORCH_TICKS) V_ACTIVE_VIDEO_TICKS 4),
              WritePORTD YELLOW,
              WaitTimer1 (band_offset (V_SYNCH_PULSE_TICKS + V_BACK_PORCH_TICKS) V_ACTIVE_VIDEO_TICKS 5),
              WritePORTD MAGENTA,
              WaitTimer1 (band_offset (V_SYNCH_PULSE_TICKS + V_BACK_PORCH_TICKS) V_ACTIVE_VIDEO_TICKS 6),
              WritePORTD BLACK,
              WaitTimer1 (band_offset (V_SYNCH_PULSE_TICKS + V_BACK_PORCH_TICKS) V_ACTIVE_VIDEO_TICKS 7),
              WritePORTD WHITE,
              WaitTimer1 (band_offset (V_SYNCH_PULSE_TICKS + V_BACK_PORCH_TICKS) V_ACTIVE_VIDEO_TICKS 8),
              WritePORTD (BV VSYNCH_PIN_part0 OR BV HSYNCH_PIN_part0)] \<and>
        wait_targets es = [91, 141, 192, 243, 294, 344, 395, 446, 497] \<and>
        sorted_wrt (<) (wait_targets es) \<and>
        map (\<lambda>k. wait_targets es ! Suc k - wait_targets es ! k) [0..<8]
          = [50, 51, 51, 51, 50, 51, 51, 51] \<and>
        wait_args es = map of_nat (wait_targets es)"
    by (intro exI [of _ t'] exI [of _ ?es] conjI)
       (rule t' active_video_events_part0_eq w s d a)+
qed

text \<open>
  A witness for C2: an interrupt of the active video phase.
\<close>

theorem wait_targets_part0_witness:
  "phase_part0 (initial_part0\<lparr>phase_part0 := ACTIVE_VIDEO\<rparr>) = ACTIVE_VIDEO \<and>
   (\<exists>t' es. ISR_part0 (initial_part0\<lparr>phase_part0 := ACTIVE_VIDEO\<rparr>) = Some (t', es) \<and>
      wait_targets es = [91, 141, 192, 243, 294, 344, 395, 446, 497] \<and>
      sorted_wrt (<) (wait_targets es))"
proof -
  define t0 where "t0 = initial_part0\<lparr>phase_part0 := ACTIVE_VIDEO\<rparr>"
  have p: "phase_part0 t0 = ACTIVE_VIDEO" by (simp add: t0_def)
  show ?thesis
    using wait_targets_part0 [of t0, THEN mp, OF p] p
    unfolding t0_def
    by blast
qed

text \<open>
  Claim C2 as stated fails: the bytes \<^verbatim>\<open>waitTimer1\<close> receives in one interrupt are not
  increasing (38 follows 243), and the third target is 192, where bands of the width
  406 / 8 would put it at 191.
\<close>

theorem wait_targets_counterexample:
  "map_option (map unat \<circ> wait_args \<circ> snd)
       (ISR_part0 (initial_part0\<lparr>phase_part0 := ACTIVE_VIDEO\<rparr>))
     = Some [91, 141, 192, 243, 38, 88, 139, 190, 241] \<and>
   \<not> sorted_wrt (<) [91, 141, 192, 243, 38, 88, 139, 190, 241 :: nat] \<and>
   band_offset (V_SYNCH_PULSE_TICKS + V_BACK_PORCH_TICKS) V_ACTIVE_VIDEO_TICKS 2 = 192 \<and>
   V_SYNCH_PULSE_TICKS + V_BACK_PORCH_TICKS + 2 * (V_ACTIVE_VIDEO_TICKS div 8) = 191"
proof -
  define t0 where "t0 = initial_part0\<lparr>phase_part0 := ACTIVE_VIDEO\<rparr>"
  obtain t' where t': "ISR_part0 t0 = Some (t', active_video_events_part0)"
    using ISR_part0_active_ex [of t0] by (auto simp: t0_def)
  have "map_option (map unat \<circ> wait_args \<circ> snd) (ISR_part0 t0)
     = Some [91, 141, 192, 243, 38, 88, 139, 190, 241]"
    by (simp add: t' wait_args_active_part0)
  moreover have "\<not> sorted_wrt (<) [91, 141, 192, 243, 38, 88, 139, 190, 241 :: nat]"
    by simp
  moreover have "V_SYNCH_PULSE_TICKS + V_BACK_PORCH_TICKS + 2 * (V_ACTIVE_VIDEO_TICKS div 8) = 191"
    by (simp add: ticks_91_part0 V_ACTIVE_VIDEO_TICKS_def)
  ultimately show ?thesis
    unfolding t0_def using band_offset_part0_values(3) by blast
qed

lemma waitTimer1_part0_immediate:
  "tick \<le> c \<Longrightarrow> waitTimer1_part0 tick (c # rs) = Some rs"
  by (simp add: leD)

lemma waitTimer1_part0_below:
  "e \<le> b \<Longrightarrow> b \<le> c \<Longrightarrow> waitTimer1_part0 e (c # rs) = Some rs"
  by (rule waitTimer1_part0_immediate) (rule order_trans)

lemma waitTimer1_part0_exit:
  "waitTimer1_part0 tick rs = Some rs' \<Longrightarrow>
     \<exists>pre c. rs = pre @ c # rs' \<and> tick \<le> c \<and> list_all (\<lambda>r. r < tick) pre"
proof (induction rs)
  case Nil
  then show ?case by simp
next
  case (Cons r rs)
  show ?case
  proof (cases "r < tick")
    case True
    then have "waitTimer1_part0 tick rs = Some rs'" using Cons.prems by simp
    then obtain pre c where "rs = pre @ c # rs'" "tick \<le> c" "list_all (\<lambda>r. r < tick) pre"
      using Cons.IH by blast
    then have "r # rs = (r # pre) @ c # rs' \<and> tick \<le> c \<and> list_all (\<lambda>r. r < tick) (r # pre)"
      using True by simp
    then show ?thesis by blast
  next
    case False
    then have "rs' = rs" using Cons.prems by simp
    then have "r # rs = [] @ r # rs' \<and> tick \<le> r \<and> list_all (\<lambda>r. r < tick) []"
      using False by (simp add: not_less)
    then show ?thesis by blast
  qed
qed

text \<open>
  Claim C10, as amended.  The parameter of \<^verbatim>\<open>waitTimer1\<close> is a byte: a call with the
  target \<open>n\<close> passes \<open>n mod 256\<close>.  In an interrupt of the active video phase the targets
  of the calls 4 to 8 are 294, 344, 395, 446 and 497; the bytes passed are these less 256,
  each smaller than 243, the byte of call 3, the last one below 256 (for call 4 this is
  the call before it).  The call for 243 returns on a reading of \<^verbatim>\<open>TCNT1L\<close> of at least
  243, and on every such reading the loop of each of the calls 4 to 8 finds its condition
  false at once and returns after this one read.
\<close>

theorem byte_target_wraps:
  "wait_args (snd (call_waitTimer1_part0 n (t, []))) = [of_nat n] \<and>
   unat (of_nat n :: byte) = n mod 256 \<and>
   (phase_part0 t = ACTIVE_VIDEO \<longrightarrow>
     (\<exists>t' es. ISR_part0 t = Some (t', es) \<and>
        map unat (wait_args es) = [91, 141, 192, 243, 294 - 256, 344 - 256, 395 - 256,
                                   446 - 256, 497 - 256] \<and>
        (k \<in> {4, 5, 6, 7, 8} \<longrightarrow>
           255 < band_offset (V_SYNCH_PULSE_TICKS + V_BACK_PORCH_TICKS) V_ACTIVE_VIDEO_TICKS k \<and>
           unat (wait_args es ! k)
             = band_offset (V_SYNCH_PULSE_TICKS + V_BACK_PORCH_TICKS) V_ACTIVE_VIDEO_TICKS k - 256 \<and>
           wait_args es ! k < wait_args es ! 3 \<and>
           (wait_args es ! 3 \<le> c \<longrightarrow>
              waitTimer1_part0 (wait_args es ! k) (c # rs) = Some rs)) \<and>
        wait_args es ! 4 < wait_args es ! 3 \<and>
        (waitTimer1_part0 (wait_args es ! 3) rs0 = Some rs1 \<longrightarrow>
           (\<exists>pre c0. rs0 = pre @ c0 # rs1 \<and> wait_args es ! 3 \<le> c0))))"
proof (intro conjI impI)
  show "wait_args (snd (call_waitTimer1_part0 n (t, []))) = [of_nat n]"
    by (simp add: call_waitTimer1_part0_def)
  show "unat (of_nat n :: byte) = n mod 256"
    by (simp add: unat_of_nat)
next
  assume "phase_part0 t = ACTIVE_VIDEO"
  then obtain t' where t': "ISR_part0 t = Some (t', active_video_events_part0)"
    using ISR_part0_active_ex by blast
  let ?w = "wait_args active_video_events_part0"
  have w: "?w = [91, 141, 192, 243, 38, 88, 139, 190, 241]" by (rule wait_args_active_part0)
  have a: "map unat ?w = [91, 141, 192, 243, 294 - 256, 344 - 256, 395 - 256,
                                   446 - 256, 497 - 256]"
    unfolding w by simp
  have b: "k \<in> {4, 5, 6, 7, 8} \<longrightarrow>
           255 < band_offset (V_SYNCH_PULSE_TICKS + V_BACK_PORCH_TICKS) V_ACTIVE_VIDEO_TICKS k \<and>
           unat (?w ! k)
             = band_offset (V_SYNCH_PULSE_TICKS + V_BACK_PORCH_TICKS) V_ACTIVE_VIDEO_TICKS k - 256 \<and>
           ?w ! k < ?w ! 3 \<and>
           (?w ! 3 \<le> c \<longrightarrow> waitTimer1_part0 (?w ! k) (c # rs) = Some rs)"
  proof
    assume "k \<in> {4, 5, 6, 7, 8}"
    then consider "k = 4" | "k = 5" | "k = 6" | "k = 7" | "k = 8" by blast
    then show "255 < band_offset (V_SYNCH_PULSE_TICKS + V_BACK_PORCH_TICKS) V_ACTIVE_VIDEO_TICKS k \<and>
           unat (?w ! k)
             = band_offset (V_SYNCH_PULSE_TICKS + V_BACK_PORCH_TICKS) V_ACTIVE_VIDEO_TICKS k - 256 \<and>
           ?w ! k < ?w ! 3 \<and>
           (?w ! 3 \<le> c \<longrightarrow> waitTimer1_part0 (?w ! k) (c # rs) = Some rs)"
    proof cases
      case 1
      have "243 \<le> c \<longrightarrow> waitTimer1_part0 38 (c # rs) = Some rs"
        using waitTimer1_part0_below [of 38 243 c rs] by simp
      then show ?thesis unfolding w 1 band_offset_part0_values
        by (simp del: waitTimer1_part0.simps)
    next
      case 2
      have "243 \<le> c \<longrightarrow> waitTimer1_part0 88 (c # rs) = Some rs"
        using waitTimer1_part0_below [of 88 243 c rs] by simp
      then show ?thesis unfolding w 2 band_offset_part0_values
        by (simp del: waitTimer1_part0.simps)
    next
      case 3
      have "243 \<le> c \<longrightarrow> waitTimer1_part0 139 (c # rs) = Some rs"
        using waitTimer1_part0_below [of 139 243 c rs] by simp
      then show ?thesis unfolding w 3 band_offset_part0_values
        by (simp del: waitTimer1_part0.simps)
    next
      case 4
      have "243 \<le> c \<longrightarrow> waitTimer1_part0 190 (c # rs) = Some rs"
        using waitTimer1_part0_below [of 190 243 c rs] by simp
      then show ?thesis unfolding w 4 band_offset_part0_values
        by (simp del: waitTimer1_part0.simps)
    next
      case 5
      have "243 \<le> c \<longrightarrow> waitTimer1_part0 241 (c # rs) = Some rs"
        using waitTimer1_part0_below [of 241 243 c rs] by simp
      then show ?thesis unfolding w 5 band_offset_part0_values
        by (simp del: waitTimer1_part0.simps)
    qed
  qed
  have d: "?w ! 4 < ?w ! 3" unfolding w by simp
  have e: "waitTimer1_part0 (?w ! 3) rs0 = Some rs1 \<longrightarrow>
           (\<exists>pre c0. rs0 = pre @ c0 # rs1 \<and> ?w ! 3 \<le> c0)"
    using waitTimer1_part0_exit [of "?w ! 3" rs0 rs1] by blast
  show "\<exists>t' es. ISR_part0 t = Some (t', es) \<and>
        map unat (wait_args es) = [91, 141, 192, 243, 294 - 256, 344 - 256, 395 - 256,
                                   446 - 256, 497 - 256] \<and>
        (k \<in> {4, 5, 6, 7, 8} \<longrightarrow>
           255 < band_offset (V_SYNCH_PULSE_TICKS + V_BACK_PORCH_TICKS) V_ACTIVE_VIDEO_TICKS k \<and>
           unat (wait_args es ! k)
             = band_offset (V_SYNCH_PULSE_TICKS + V_BACK_PORCH_TICKS) V_ACTIVE_VIDEO_TICKS k - 256 \<and>
           wait_args es ! k < wait_args es ! 3 \<and>
           (wait_args es ! 3 \<le> c \<longrightarrow>
              waitTimer1_part0 (wait_args es ! k) (c # rs) = Some rs)) \<and>
        wait_args es ! 4 < wait_args es ! 3 \<and>
        (waitTimer1_part0 (wait_args es ! 3) rs0 = Some rs1 \<longrightarrow>
           (\<exists>pre c0. rs0 = pre @ c0 # rs1 \<and> wait_args es ! 3 \<le> c0))"
    by (intro exI [of _ t'] exI [of _ active_video_events_part0] conjI) (rule t' a b d e)+
qed

text \<open>
  A witness for C10: the call for band 4 is passed 38 and returns at once on the reading
  243.
\<close>

theorem byte_target_wraps_witness:
  "unat (of_nat 294 :: byte) = 38 \<and>
   (\<exists>t' es. ISR_part0 (initial_part0\<lparr>phase_part0 := ACTIVE_VIDEO\<rparr>) = Some (t', es) \<and>
      unat (wait_args es ! 3) = 243 \<and> unat (wait_args es ! 4) = 38 \<and>
      wait_args es ! 4 < wait_args es ! 3 \<and>
      waitTimer1_part0 (wait_args es ! 4) [243] = Some [])"
proof -
  define t0 where "t0 = initial_part0\<lparr>phase_part0 := ACTIVE_VIDEO\<rparr>"
  have p: "phase_part0 t0 = ACTIVE_VIDEO" by (simp add: t0_def)
  note th = byte_target_wraps [of 294 t0 4 243 "[]" "[]" "[]"]
  have n: "unat (of_nat 294 :: byte) = 38" using th by simp
  obtain t' es where es: "ISR_part0 t0 = Some (t', es)"
    and m: "map unat (wait_args es) = [91, 141, 192, 243, 294 - 256, 344 - 256, 395 - 256,
                                   446 - 256, 497 - 256]"
    and k: "(4::nat) \<in> {4, 5, 6, 7, 8} \<longrightarrow>
           255 < band_offset (V_SYNCH_PULSE_TICKS + V_BACK_PORCH_TICKS) V_ACTIVE_VIDEO_TICKS 4 \<and>
           unat (wait_args es ! 4)
             = band_offset (V_SYNCH_PULSE_TICKS + V_BACK_PORCH_TICKS) V_ACTIVE_VIDEO_TICKS 4 - 256 \<and>
           wait_args es ! 4 < wait_args es ! 3 \<and>
           (wait_args es ! 3 \<le> 243 \<longrightarrow>
              waitTimer1_part0 (wait_args es ! 4) [243] = Some [])"
    using th [THEN conjunct2, THEN conjunct2, THEN mp, OF p]
    by (elim exE conjE) (rule that; assumption)
  have "length (map unat (wait_args es)) = 9" unfolding m by simp
  then have "map unat (wait_args es) ! 3 = unat (wait_args es ! 3)" by simp
  then have u: "unat (wait_args es ! 3) = 243" unfolding m by simp
  then have le: "wait_args es ! 3 \<le> 243" by (simp add: word_le_nat_alt)
  have "unat (wait_args es ! 4) = 38" "wait_args es ! 4 < wait_args es ! 3"
    "waitTimer1_part0 (wait_args es ! 4) [243] = Some []"
    using k le by (simp_all add: band_offset_part0_values)
  then show ?thesis using n es u unfolding t0_def by blast
qed

text \<open>
  Claim C10 as stated fails: of the bytes passed by the calls 4 to 8, only the first is
  smaller than the byte of the call before it (38 after 243); each of the others is larger
  than its predecessor (88 after 38, 139 after 88, 190 after 139, 241 after 190).
\<close>

theorem byte_target_wraps_counterexample:
  "map_option (map unat \<circ> wait_args \<circ> snd)
       (ISR_part0 (initial_part0\<lparr>phase_part0 := ACTIVE_VIDEO\<rparr>))
     = Some [91, 141, 192, 243, 38, 88, 139, 190, 241] \<and>
   map_option ((\<lambda>w. [w ! 4 < w ! 3, w ! 5 < w ! 4, w ! 6 < w ! 5, w ! 7 < w ! 6, w ! 8 < w ! 7])
                 \<circ> wait_args \<circ> snd)
       (ISR_part0 (initial_part0\<lparr>phase_part0 := ACTIVE_VIDEO\<rparr>))
     = Some [True, False, False, False, False]"
proof -
  define t0 where "t0 = initial_part0\<lparr>phase_part0 := ACTIVE_VIDEO\<rparr>"
  obtain t' where t': "ISR_part0 t0 = Some (t', active_video_events_part0)"
    using ISR_part0_active_ex [of t0] by (auto simp: t0_def)
  show ?thesis unfolding t0_def [symmetric]
    by (simp add: t' wait_args_active_part0)
qed

section \<open>The cycles of waitTimer1\<close>

lemma waitTimer1_loop_eq:
  "waitTimer1_loop t c = (of_nat (unat t mod 4), c + 4 * (unat t div 4) + 2)"
proof (induction t c rule: waitTimer1_loop.induct)
  case (1 tick c)
  show ?case
  proof (cases "4 \<le> tick")
    case True
    then have u: "4 \<le> unat tick" by (simp add: word_le_nat_alt)
    have s: "unat (tick - 4) = unat tick - 4" using True by (simp add: unat_sub)
    have m: "(unat tick - 4) mod 4 = unat tick mod 4" using u by (simp add: le_mod_geq)
    have d: "unat tick div 4 = Suc ((unat tick - 4) div 4)" using u by (simp add: le_div_geq)
    have "waitTimer1_loop tick c = waitTimer1_loop (tick - 4) (c + 1 + 2 + 1)"
      using True by (subst waitTimer1_loop.simps) simp
    also have "\<dots> = (of_nat (unat (tick - 4) mod 4),
                        c + 1 + 2 + 1 + 4 * (unat (tick - 4) div 4) + 2)"
      using True by (rule "1.IH")
    also have "\<dots> = (of_nat (unat tick mod 4), c + 4 * (unat tick div 4) + 2)"
      unfolding s m d by simp
    finally show ?thesis .
  next
    case False
    then have u: "unat tick < 4" by (simp add: word_le_nat_alt)
    have "waitTimer1_loop tick c = (tick, c + 1 + 1)"
      using False by (subst waitTimer1_loop.simps) simp
    moreover have "of_nat (unat tick mod 4) = tick" using u by simp
    ultimately show ?thesis using u by simp
  qed
qed

lemma waitTimer1_tail_eq:
  assumes "r < 4"
  shows "waitTimer1_tail (of_nat r) c = (if r = 0 then c + 3 else c + 6 + r)"
proof -
  consider "r = 0" | "r = 1" | "r = 2" | "r = 3" using assms by linarith
  then show ?thesis by cases (simp_all add: waitTimer1_tail_def)
qed

text \<open>
  The cycles of the routine as a function of the register after the two subtractions:
  \<open>d + 12\<close> cycles, but \<open>d + 9\<close> when \<open>d\<close> is a multiple of 4, where the branch
  \<^verbatim>\<open>breq 3f\<close> skips the three \<^verbatim>\<open>nop\<close>s.
\<close>

lemma waitTimer1_cycles:
  "waitTimer1 tick tmp r13 =
     (let d = unat (tick - tmp - r13) in if d mod 4 = 0 then d + 9 else d + 12)"
proof -
  define d where "d = unat (tick - tmp - r13)"
  have r: "d mod 4 < 4" by simp
  have "waitTimer1 tick tmp r13
          = waitTimer1_tail (of_nat (d mod 4)) (1 + 1 + 2 + 4 * (d div 4) + 2)"
    by (simp add: waitTimer1_def waitTimer1_loop_eq d_def Let_def)
  also have "\<dots> = (if d mod 4 = 0 then 1 + 1 + 2 + 4 * (d div 4) + 2 + 3
                      else 1 + 1 + 2 + 4 * (d div 4) + 2 + 6 + d mod 4)"
    using r by (rule waitTimer1_tail_eq)
  also have "\<dots> = (if d mod 4 = 0 then d + 9 else d + 12)"
  proof -
    have "d = 4 * (d div 4) + d mod 4" by simp
    then show ?thesis by presburger
  qed
  finally show ?thesis by (simp add: d_def Let_def)
qed

lemma delta_nonneg:
  "tmp \<le> tick \<Longrightarrow> unat (tick - tmp :: byte) = unat tick - unat tmp"
  by (simp add: unat_sub)

lemma waitTimer1_above_r13:
  "waitTimer1 (r13 + 4) 0 r13 = 13" "waitTimer1 (r13 + 5) 0 r13 = 17"
  "waitTimer1 (r13 + 6) 0 r13 = 18" "waitTimer1 (r13 + 7) 0 r13 = 19"
  "waitTimer1 (r13 + 8) 0 r13 = 17"
  by (simp_all add: waitTimer1_cycles)

lemma waitTimer1_not_affine:
  "\<not> (\<exists>a b :: int.
         int (waitTimer1 (r13 + 4) 0 r13) = a * int (unat (r13 + 4 - 0)) + b \<and>
         int (waitTimer1 (r13 + 5) 0 r13) = a * int (unat (r13 + 5 - 0)) + b \<and>
         int (waitTimer1 (r13 + 8) 0 r13) = a * int (unat (r13 + 8 - 0)) + b)"
proof
  assume "\<exists>a b :: int.
         int (waitTimer1 (r13 + 4) 0 r13) = a * int (unat (r13 + 4 - 0)) + b \<and>
         int (waitTimer1 (r13 + 5) 0 r13) = a * int (unat (r13 + 5 - 0)) + b \<and>
         int (waitTimer1 (r13 + 8) 0 r13) = a * int (unat (r13 + 8 - 0)) + b"
  then obtain a b :: int where
    "int 13 = a * int (unat (r13 + 4 - 0)) + b" and
    "int 17 = a * int (unat (r13 + 5 - 0)) + b" and
    "int 17 = a * int (unat (r13 + 8 - 0)) + b"
    unfolding waitTimer1_above_r13 by (elim exE conjE) (rule that; assumption)
  then have e4: "13 = a * int (unat (r13 + 4)) + b"
    and e5: "17 = a * int (unat (r13 + 5)) + b"
    and e8: "17 = a * int (unat (r13 + 8)) + b"
    by simp_all
  have ne: "uint (r13 + 5) \<noteq> uint (r13 + 8)"
  proof
    assume "uint (r13 + 5) = uint (r13 + 8)"
    then have "r13 + 5 = r13 + 8" by (rule word_uint_eqI)
    then show False by simp
  qed
  define x5 x8 where "x5 = uint (r13 + 5)" and "x8 = uint (r13 + 8)"
  have e5': "17 = a * x5 + b" using e5 by (simp add: x5_def)
  have e8': "17 = a * x8 + b" using e8 by (simp add: x8_def)
  have "x5 \<noteq> x8" using ne by (simp only: x5_def x8_def not_False_eq_True)
  moreover have "a * x5 = a * x8" using e5' e8' by linarith
  ultimately have "a = 0" by simp
  then show False using e4 e5 by simp
qed

text \<open>
  Claim C3.  Whatever r13 holds, the routine takes \<open>d + 12\<close> cycles, but \<open>d + 9\<close> when
  \<open>d\<close> is a multiple of 4, for \<open>d\<close> the 8-bit value of delta less r13.  Called with
  the targets r13 + 4 to r13 + 8 on a counter reading of 0, it takes 13, 17, 18, 19 and 17
  cycles, and no affine function of the delta gives the three costs at r13 + 4, r13 + 5
  and r13 + 8.  With r13 holding 0, the call \<^verbatim>\<open>waitTimer1(91)\<close> of the handler takes 29,
  30, 31 and 33 cycles on the readings 74, 73, 72 and 70 (delta 17, 18, 19 and 21),
  twelve more than the delta, and 29 cycles on the reading 71 (delta 20, a multiple
  of 4), nine more than the delta.  The cycle table beside the instructions sets out
  one cost for the four remainders: it counts the three \<^verbatim>\<open>nop\<close>s for the remainder 0 as
  well, the path that \<^verbatim>\<open>breq 3f\<close> skips.
\<close>

theorem waitTimer1_cycles_at_91:
  "waitTimer1 tick tmp r13 =
     (let d = unat (tick - tmp - r13) in if d mod 4 = 0 then d + 9 else d + 12) \<and>
   waitTimer1 (r13 + 4) 0 r13 = 13 \<and> waitTimer1 (r13 + 5) 0 r13 = 17 \<and>
   waitTimer1 (r13 + 6) 0 r13 = 18 \<and> waitTimer1 (r13 + 7) 0 r13 = 19 \<and>
   waitTimer1 (r13 + 8) 0 r13 = 17 \<and>
   \<not> (\<exists>a b :: int.
         int (waitTimer1 (r13 + 4) 0 r13) = a * int (unat (r13 + 4 - 0)) + b \<and>
         int (waitTimer1 (r13 + 5) 0 r13) = a * int (unat (r13 + 5 - 0)) + b \<and>
         int (waitTimer1 (r13 + 8) 0 r13) = a * int (unat (r13 + 8 - 0)) + b) \<and>
   unat (91 - 74 :: byte) = 17 \<and> waitTimer1 91 74 0 = 29 \<and>
   unat (91 - 73 :: byte) = 18 \<and> waitTimer1 91 73 0 = 30 \<and>
   unat (91 - 72 :: byte) = 19 \<and> waitTimer1 91 72 0 = 31 \<and>
   unat (91 - 71 :: byte) = 20 \<and> waitTimer1 91 71 0 = 29 \<and>
   unat (91 - 70 :: byte) = 21 \<and> waitTimer1 91 70 0 = 33"
proof -
  have "unat (91 - 74 :: byte) = 17 \<and> waitTimer1 91 74 0 = 29 \<and>
   unat (91 - 73 :: byte) = 18 \<and> waitTimer1 91 73 0 = 30 \<and>
   unat (91 - 72 :: byte) = 19 \<and> waitTimer1 91 72 0 = 31 \<and>
   unat (91 - 71 :: byte) = 20 \<and> waitTimer1 91 71 0 = 29 \<and>
   unat (91 - 70 :: byte) = 21 \<and> waitTimer1 91 70 0 = 33"
    by (simp add: waitTimer1_cycles)
  then show ?thesis
    using waitTimer1_cycles [of tick tmp r13] waitTimer1_above_r13 [of r13]
      waitTimer1_not_affine [of r13]
    by (intro conjI) blast+
qed

end
